theory Spec2Isabelle
  imports Main "HOL-Library.Word"
begin

section \<open>Expressions, contexts and environments\<close>

text \<open>
  The expression model (\<^verbatim>\<open>expr.h\<close>), the typing context (\<^verbatim>\<open>context.h\<close>), the
  environment (\<^verbatim>\<open>environment.h\<close>) and the built-in values (\<^verbatim>\<open>builtin.h\<close>) are used
  by \<^verbatim>\<open>src/kernel/normalizer.cpp\<close> through their headers, which are not under
  \<^verbatim>\<open>src\<close>. They are modelled here as far as the normalizer reads them. The C++ \<^verbatim>\<open>unsigned\<close> (de Bruijn
  indices, binder counts, the recursion depth) is \<open>32 word\<close>, so that \<open>k - j - 1\<close> and
  \<open>m_depth + 1\<close> wrap as they do in the program.
\<close>

type_synonym name = string
type_synonym level = nat

text \<open>
  Modelled from the spec: built-in literals (\<^verbatim>\<open>builtin.h\<close> is missing). \<open>Value(v)\<close> is a
  built-in literal (boolean, integer, etc.); \<^verbatim>\<open>mk_bool_type()\<close> and \<^verbatim>\<open>mk_bool_value(b)\<close>
  are the literals of the boolean type and of the two booleans.
\<close>

datatype lean_value = bool_type_value | bool_value_value bool | int_value int

datatype expr =
    Var "32 word"
  | Constant name
  | Type level
  | Value lean_value
  | App "expr list"
  | Eq expr expr
  | Lambda name expr expr
  | Pi name expr expr
  | Let_expr name expr expr

definition mk_bool_type :: expr where
  "mk_bool_type = Value bool_type_value"

definition mk_bool_value :: "bool \<Rightarrow> expr" where
  "mk_bool_value b = Value (bool_value_value b)"

fun is_value :: "expr \<Rightarrow> bool" where
  "is_value (Value v) = True"
| "is_value e = False"

fun is_type :: "expr \<Rightarrow> bool" where
  "is_type (Type l) = True"
| "is_type e = False"

text \<open>
  Modelled from the spec: \<^verbatim>\<open>mk_app\<close>, \<^verbatim>\<open>mk_var\<close>, \<^verbatim>\<open>mk_eq\<close>, \<^verbatim>\<open>mk_lambda\<close>, \<^verbatim>\<open>mk_pi\<close>
  (\<^verbatim>\<open>expr.h\<close> is missing) build the node of their kind from their arguments; \<open>App\<close>
  holds the head at position 0 followed by the arguments, so \<^verbatim>\<open>num_args\<close> is the length of
  the list and is at least 2 in every expression the constructors of \<^verbatim>\<open>expr.h\<close> build.
\<close>

definition mk_app :: "expr list \<Rightarrow> expr" where
  "mk_app new_args = App new_args"

record context_entry =
  get_name :: name
  get_domain :: expr
  get_body :: "expr option"

text \<open>A context is the list of its entries, innermost binder first.\<close>

type_synonym "context" = "context_entry list"

record object =
  is_definition :: bool
  is_opaque :: bool
  get_value :: expr

record environment =
  get_object :: "name \<Rightarrow> object"
  is_ge :: "level \<Rightarrow> level \<Rightarrow> bool"

datatype error =
    kernel_exception string
  | interrupted
  | exception string
  | assertion_violation

section \<open>Stack values\<close>

datatype svalue =
    Expr expr
  | Closure expr "svalue list"
  | BoundedVar "32 word"

type_synonym value_stack = "svalue list"

definition extend_stack :: "value_stack \<Rightarrow> svalue \<Rightarrow> value_stack" where
  "extend_stack s v = v # s"

fun is_closure :: "svalue \<Rightarrow> bool" where
  "is_closure (Closure e c) = True"
| "is_closure v = False"

section \<open>The normalizer object\<close>

text \<open>
  Modelled from the spec: the cache (\<^verbatim>\<open>scoped_map.h\<close> is missing) is a scoped map from
  expressions to stack values. \<^verbatim>\<open>find\<close> is \<open>cache_find\<close>, \<^verbatim>\<open>insert\<close> replaces or adds the
  entry of a key, \<^verbatim>\<open>clear\<close> empties it, and a \<^verbatim>\<open>mk_scope\<close> region restores on every exit
  exactly the contents visible when it was entered (\<open>mk_scope\<close> below). The keys are
  compared by \<^verbatim>\<open>expr_eqp\<close>, the identity of the node; in the hash-consed expression model
  of the spec that is the equality of expressions.
\<close>

type_synonym cache = "(expr \<times> svalue) list"

definition cache_find :: "cache \<Rightarrow> expr \<Rightarrow> svalue option" where
  "cache_find c a = map_of c a"

fun cache_insert :: "cache \<Rightarrow> expr \<Rightarrow> svalue \<Rightarrow> cache" where
  "cache_insert [] a r = [(a, r)]"
| "cache_insert ((b, v) # c) a r = (if a = b then (a, r) # c else (b, v) # cache_insert c a r)"

text \<open>
  The fields of \<^verbatim>\<open>normalizer::imp\<close> that never change during a call are collected in
  \<open>imp_config\<close>, together with what the missing headers decide:
  \<^item> \<open>is_shared\<close>: \<^verbatim>\<open>is_shared(a)\<close> of \<^verbatim>\<open>expr.h\<close>, whether the node is referenced more than once;
  \<^item> \<open>is_eqp\<close>: \<^verbatim>\<open>is_eqp(ctx, m_ctx)\<close>, the identity of two contexts;
  \<^item> \<open>value_normalize\<close>: \<^verbatim>\<open>to_value(f).normalize(n, args, m)\<close>, the computation rule of a
    built-in value, returning the reduct \<open>m\<close> when it applies.
  The mutable fields are the record \<open>imp\<close>.
\<close>

record imp_config =
  m_env :: environment
  m_max_depth :: "32 word"
  m_interrupted :: bool
  is_shared :: "expr \<Rightarrow> bool"
  is_eqp :: "context \<Rightarrow> context \<Rightarrow> bool"
  value_normalize :: "lean_value \<Rightarrow> expr list \<Rightarrow> expr option"

record imp =
  m_ctx :: "context"
  m_cache :: cache
  m_depth :: "32 word"

text \<open>
  A call returns a value or throws, and leaves the object in a new state (destructors run
  on both paths). \<open>None\<close> is a call that has not returned within the given number of
  nested calls (the fuel).
\<close>

type_synonym 'a res = "((error + 'a) \<times> imp) option"

definition ret :: "'a \<Rightarrow> imp \<Rightarrow> 'a res" where
  "ret x st = Some (Inr x, st)"

definition throw :: "error \<Rightarrow> imp \<Rightarrow> 'a res" where
  "throw e st = Some (Inl e, st)"

definition bind_res :: "'a res \<Rightarrow> ('a \<Rightarrow> imp \<Rightarrow> 'b res) \<Rightarrow> 'b res" where
  "bind_res m f =
     (case m of
        None \<Rightarrow> None
      | Some (Inl e, st) \<Rightarrow> Some (Inl e, st)
      | Some (Inr x, st) \<Rightarrow> f x st)"

text \<open>\<^verbatim>\<open>flet<unsigned> l(m_depth, m_depth+1)\<close>: the old depth is put back on every exit.\<close>

definition flet_depth :: "32 word \<Rightarrow> 'a res \<Rightarrow> 'a res" where
  "flet_depth d r = map_option (\<lambda>(x, st). (x, st\<lparr>m_depth := d\<rparr>)) r"

text \<open>\<^verbatim>\<open>cache::mk_scope sc(m_cache)\<close>: the frame is popped on every exit.\<close>

definition mk_scope :: "cache \<Rightarrow> 'a res \<Rightarrow> 'a res" where
  "mk_scope c r = map_option (\<lambda>(x, st). (x, st\<lparr>m_cache := c\<rparr>)) r"

text \<open>
  \<^verbatim>\<open>save_context\<close>: the constructor keeps \<open>m_ctx\<close> and clears the cache
  (\<open>save_context_enter\<close>); the destructor assigns the kept context back and does nothing
  else (\<open>save_context_exit\<close>).
\<close>

definition save_context_enter :: "imp \<Rightarrow> imp" where
  "save_context_enter st = st\<lparr>m_cache := []\<rparr>"

definition save_context_exit :: "context \<Rightarrow> 'a res \<Rightarrow> 'a res" where
  "save_context_exit old_ctx r = map_option (\<lambda>(x, st). (x, st\<lparr>m_ctx := old_ctx\<rparr>)) r"

text \<open>The walk of \<^verbatim>\<open>lookup\<close> along the value stack: the value found, or the index left.\<close>

fun lookup_stack :: "value_stack \<Rightarrow> 32 word \<Rightarrow> svalue + 32 word" where
  "lookup_stack [] j = Inr j"
| "lookup_stack (v # s) j = (if j = 0 then Inl v else lookup_stack s (j - 1))"

text \<open>
  Modelled from the spec: \<^verbatim>\<open>lookup_ext(ctx, j)\<close> (\<^verbatim>\<open>context.h\<close> is missing) returns the
  entry of de Bruijn index \<open>j\<close> together with the context prefix ending just below that
  entry. An index beyond the context is an exception.
\<close>

fun lookup_ext :: "context \<Rightarrow> 32 word \<Rightarrow> error + (context_entry \<times> context)" where
  "lookup_ext [] j = Inl (exception ''unknown free variable'')"
| "lookup_ext (e # c) j = (if j = 0 then Inr (e, c) else lookup_ext c (j - 1))"

definition ctx_size :: "context \<Rightarrow> 32 word" where
  "ctx_size c = of_nat (length c)"

text \<open>\<^verbatim>\<open>arg(a, i)\<close>; reading beyond \<^verbatim>\<open>num_args\<close> violates the assertion of the accessor.\<close>

definition arg :: "expr list \<Rightarrow> nat \<Rightarrow> imp \<Rightarrow> expr res" where
  "arg as i st = (if i < length as then ret (as ! i) st else throw assertion_violation st)"

text \<open>The end of \<^verbatim>\<open>normalize\<close>: \<^verbatim>\<open>if (shared) m_cache.insert(a, r); return r;\<close>\<close>

definition cache_result :: "bool \<Rightarrow> expr \<Rightarrow> svalue res \<Rightarrow> svalue res" where
  "cache_result shared a m =
     bind_res m (\<lambda>r st. ret r (if shared then st\<lparr>m_cache := cache_insert (m_cache st) a r\<rparr> else st))"

section \<open>\<^verbatim>\<open>normalizer::imp\<close>: lookup, reify and normalize\<close>

text \<open>
  The member functions call each other, so they are one mutually recursive definition.
  The first argument bounds the nesting of calls (with the default \<^verbatim>\<open>max_depth\<close>, the
  largest \<^verbatim>\<open>unsigned\<close>, the depth check never fires and the program need not return); the
  \<^verbatim>\<open>while (true)\<close> loop of the \<open>App\<close> case is \<open>normalize_app_loop\<close>, with the head value
  \<open>f\<close> and the position \<open>i\<close> as its loop variables, and its inner \<^verbatim>\<open>for\<close> loop is
  \<open>reify_args\<close>. The position \<open>i\<close> never passes \<^verbatim>\<open>num_args\<close>, the length of the argument list,
  so it is a natural number. An assertion of the program that fails (a closure that holds
  no \<open>Lambda\<close>, an argument position out of range) is the error \<open>assertion_violation\<close>.
\<close>

function (sequential) normalize :: "nat \<Rightarrow> imp_config \<Rightarrow> imp \<Rightarrow> expr \<Rightarrow> value_stack \<Rightarrow> 32 word \<Rightarrow> svalue res"
  and lookup :: "nat \<Rightarrow> imp_config \<Rightarrow> imp \<Rightarrow> value_stack \<Rightarrow> 32 word \<Rightarrow> 32 word \<Rightarrow> svalue res"
  and reify_closure :: "nat \<Rightarrow> imp_config \<Rightarrow> imp \<Rightarrow> expr \<Rightarrow> value_stack \<Rightarrow> 32 word \<Rightarrow> expr res"
  and reify :: "nat \<Rightarrow> imp_config \<Rightarrow> imp \<Rightarrow> svalue \<Rightarrow> 32 word \<Rightarrow> expr res"
  and normalize_app_loop ::
    "nat \<Rightarrow> imp_config \<Rightarrow> imp \<Rightarrow> expr list \<Rightarrow> value_stack \<Rightarrow> 32 word \<Rightarrow> svalue \<Rightarrow> nat \<Rightarrow> svalue res"
  and reify_args ::
    "nat \<Rightarrow> imp_config \<Rightarrow> imp \<Rightarrow> expr list \<Rightarrow> value_stack \<Rightarrow> 32 word \<Rightarrow> nat \<Rightarrow> expr list \<Rightarrow> (expr list) res"
where
  "normalize 0 P st a s k = None"
| "normalize (Suc n) P st a s k =
     (let st1 = st\<lparr>m_depth := m_depth st + 1\<rparr> in
      flet_depth (m_depth st)
       (if m_interrupted P then throw interrupted st1
        else if m_depth st1 > m_max_depth P then
          throw (kernel_exception ''normalizer maximum recursion depth exceeded'') st1
        else
          (case (if is_shared P a then cache_find (m_cache st1) a else None) of
             Some cached \<Rightarrow> ret cached st1
           | None \<Rightarrow>
               cache_result (is_shared P a) a
                (case a of
                   Var i \<Rightarrow> lookup n P st1 s i k
                 | Constant c \<Rightarrow>
                     (let obj = get_object (m_env P) c in
                      if is_definition obj \<and> \<not> is_opaque obj then
                        normalize n P st1 (get_value obj) [] 0
                      else ret (Expr a) st1)
                 | Type l \<Rightarrow> ret (Expr a) st1
                 | Value v \<Rightarrow> ret (Expr a) st1
                 | App as \<Rightarrow>
                     bind_res (arg as 0 st1) (\<lambda>a0 st2.
                     bind_res (normalize n P st2 a0 s k) (\<lambda>f st3.
                       normalize_app_loop n P st3 as s k f 1))
                 | Eq lhs rhs \<Rightarrow>
                     bind_res (normalize n P st1 lhs s k) (\<lambda>vl st2.
                     bind_res (reify n P st2 vl k) (\<lambda>new_lhs st3.
                     bind_res (normalize n P st3 rhs s k) (\<lambda>vr st4.
                     bind_res (reify n P st4 vr k) (\<lambda>new_rhs st5.
                       if new_lhs = new_rhs then ret (Expr (mk_bool_value True)) st5
                       else if is_value new_lhs \<and> is_value new_rhs then
                         ret (Expr (mk_bool_value False)) st5
                       else ret (Expr (Eq new_lhs new_rhs)) st5))))
                 | Lambda x t b \<Rightarrow> ret (Closure a s) st1
                 | Pi x t b \<Rightarrow>
                     bind_res (normalize n P st1 t s k) (\<lambda>vt st2.
                     bind_res (reify n P st2 vt k) (\<lambda>new_t st3.
                     bind_res
                       (mk_scope (m_cache st3)
                         (bind_res (normalize n P st3 b (extend_stack s (BoundedVar k)) (k + 1)) (\<lambda>vb st4.
                            reify n P st4 vb (k + 1))))
                       (\<lambda>new_b st5. ret (Expr (Pi x new_t new_b)) st5)))
                 | Let_expr x v b \<Rightarrow>
                     bind_res (normalize n P st1 v s k) (\<lambda>v' st2.
                       mk_scope (m_cache st2) (normalize n P st2 b (extend_stack s v') (k + 1)))))))"
| "lookup 0 P st s i k = None"
| "lookup (Suc n) P st s i k =
     (case lookup_stack s i of
        Inl v \<Rightarrow> ret v st
      | Inr j \<Rightarrow>
          (case lookup_ext (m_ctx st) j of
             Inl e \<Rightarrow> throw e st
           | Inr (entry, entry_c) \<Rightarrow>
               (case get_body entry of
                  Some body \<Rightarrow>
                    save_context_exit (m_ctx st)
                     (let st1 = (save_context_enter st)\<lparr>m_ctx := entry_c\<rparr>;
                          k' = ctx_size (m_ctx st1)
                      in bind_res (normalize n P st1 body [] k') (\<lambda>v st2.
                         bind_res (reify n P st2 v k') (\<lambda>e st3. ret (Expr e) st3)))
                | None \<Rightarrow> ret (BoundedVar (ctx_size entry_c)) st)))"
| "reify_closure 0 P st a s k = None"
| "reify_closure (Suc n) P st a s k =
     (case a of
        Lambda x t b \<Rightarrow>
          bind_res (normalize n P st t s k) (\<lambda>vt st1.
          bind_res (reify n P st1 vt k) (\<lambda>new_t st2.
          bind_res (normalize n P st2 b (extend_stack s (BoundedVar k)) (k + 1)) (\<lambda>vb st3.
          bind_res (reify n P st3 vb (k + 1)) (\<lambda>new_b st4.
            ret (Lambda x new_t new_b) st4))))
      | _ \<Rightarrow> throw assertion_violation st)"
| "reify 0 P st v k = None"
| "reify (Suc n) P st v k =
     (case v of
        Expr e \<Rightarrow> ret e st
      | BoundedVar j \<Rightarrow> ret (Var (k - j - 1)) st
      | Closure a s \<Rightarrow> reify_closure n P st a s k)"
| "normalize_app_loop 0 P st as s k f i = None"
| "normalize_app_loop (Suc n) P st as s k f i =
     (case f of
        Closure fv fs \<Rightarrow>
          (case fv of
             Lambda x t b \<Rightarrow>
               bind_res
                 (mk_scope (m_cache st)
                   (bind_res (arg as i st) (\<lambda>ai st1.
                    bind_res (normalize n P st1 ai s k) (\<lambda>v st2.
                      normalize n P st2 b (extend_stack fs v) k))))
                 (\<lambda>f' st3.
                    if i = length as - 1 then ret f' st3
                    else normalize_app_loop n P st3 as s k f' (i + 1))
           | _ \<Rightarrow> throw assertion_violation st)
      | _ \<Rightarrow>
          bind_res (reify n P st f k) (\<lambda>new_f st1.
          bind_res (reify_args n P st1 as s k i [new_f]) (\<lambda>new_args st2.
            (case (case new_f of Value bv \<Rightarrow> value_normalize P bv new_args | _ \<Rightarrow> None) of
               Some m \<Rightarrow> normalize n P st2 m s k
             | None \<Rightarrow> ret (Expr (mk_app new_args)) st2))))"
| "reify_args 0 P st as s k i new_args = None"
| "reify_args (Suc n) P st as s k i new_args =
     (if i < length as then
        bind_res (normalize n P st (as ! i) s k) (\<lambda>v st1.
        bind_res (reify n P st1 v k) (\<lambda>e st2.
          reify_args n P st2 as s k (i + 1) (new_args @ [e])))
      else ret new_args st)"
  by pat_completeness auto

text \<open>Every call passes on a smaller bound, whichever member function it enters.\<close>

termination
  by (relation "measure (\<lambda>x. case x of
            Inl (Inl a) \<Rightarrow> fst a
          | Inl (Inr (Inl a)) \<Rightarrow> fst a
          | Inl (Inr (Inr a)) \<Rightarrow> fst a
          | Inr (Inl a) \<Rightarrow> fst a
          | Inr (Inr (Inl a)) \<Rightarrow> fst a
          | Inr (Inr (Inr a)) \<Rightarrow> fst a)") simp_all

text \<open>\<^verbatim>\<open>set_ctx\<close>, \<^verbatim>\<open>operator()\<close>, \<^verbatim>\<open>is_convertible_core\<close>, \<^verbatim>\<open>is_convertible\<close> and \<^verbatim>\<open>clear\<close>.\<close>

definition set_ctx :: "imp_config \<Rightarrow> imp \<Rightarrow> context \<Rightarrow> imp" where
  "set_ctx P st ctx =
     (if \<not> is_eqp P ctx (m_ctx st) then st\<lparr>m_ctx := ctx, m_cache := []\<rparr> else st)"

definition normalize_op :: "nat \<Rightarrow> imp_config \<Rightarrow> imp \<Rightarrow> expr \<Rightarrow> context \<Rightarrow> expr res" where
  "normalize_op n P st e ctx =
     (let st1 = set_ctx P st ctx; k = ctx_size (m_ctx st1) in
      bind_res (normalize n P st1 e [] k) (\<lambda>v st2. reify n P st2 v k))"

text \<open>
  The loop of \<^verbatim>\<open>is_convertible_core\<close> descends through the bodies of two \<open>Pi\<close>s with
  equal domains; \<open>convertible_loop\<close> is that loop, structurally recursive in \<open>e\<close>.
\<close>

fun convertible_loop :: "environment \<Rightarrow> expr \<Rightarrow> expr \<Rightarrow> bool" where
  "convertible_loop env e g =
     (if (case (e, g) of (Type u, Type v) \<Rightarrow> is_ge env u v | _ \<Rightarrow> False) then True
      else if is_type e \<and> g = mk_bool_type then True
      else (case (e, g) of
              (Pi x t b, Pi x' t' b') \<Rightarrow> if t = t' then convertible_loop env b b' else False
            | _ \<Rightarrow> False))"

definition is_convertible_core :: "environment \<Rightarrow> expr \<Rightarrow> expr \<Rightarrow> bool" where
  "is_convertible_core env expected given =
     (if expected = given then True else convertible_loop env expected given)"

definition is_convertible :: "nat \<Rightarrow> imp_config \<Rightarrow> imp \<Rightarrow> expr \<Rightarrow> expr \<Rightarrow> context \<Rightarrow> bool res" where
  "is_convertible n P st expected given ctx =
     (if is_convertible_core (m_env P) expected given then ret True st
      else
        (let st1 = set_ctx P st ctx; k = ctx_size (m_ctx st1) in
         bind_res (normalize n P st1 expected [] k) (\<lambda>ve st2.
         bind_res (reify n P st2 ve k) (\<lambda>e_n st3.
         bind_res (normalize n P st3 given [] k) (\<lambda>vg st4.
         bind_res (reify n P st4 vg k) (\<lambda>g_n st5.
           ret (is_convertible_core (m_env P) e_n g_n) st5))))))"

definition clear :: "imp \<Rightarrow> imp" where
  "clear st = st\<lparr>m_ctx := [], m_cache := []\<rparr>"

text \<open>The constructor \<^verbatim>\<open>imp(env, max_depth)\<close> leaves an empty context and cache at depth 0.\<close>

definition imp_init :: imp where
  "imp_init = \<lparr>m_ctx = [], m_cache = [], m_depth = 0\<rparr>"

section \<open>Backward chaining\<close>

text \<open>
  \<^verbatim>\<open>src/library/tactic/backward/backward_chaining.cpp\<close> works on the tactic layer, whose
  headers are not under \<^verbatim>\<open>src\<close>.

  Modelled from the spec: the proof state (\<^verbatim>\<open>tactic_state.h\<close> is missing) carries an
  ordered list of goals (metavariables) and a metavariable context; \<^verbatim>\<open>set_goals\<close> replaces
  the goals, and \<^verbatim>\<open>get_main_goal_decl\<close> is the declaration of the first goal in the
  metavariable context, absent when there is no goal (the constructor of
  \<^verbatim>\<open>back_chaining_fn\<close> asserts \<^verbatim>\<open>s.goals()\<close> behind that test).
\<close>

record metavar_decl =
  get_type :: expr

type_synonym metavar_context = "(expr \<times> metavar_decl) list"

record tactic_state =
  goals :: "expr list"
  mctx :: metavar_context

definition set_goals :: "tactic_state \<Rightarrow> expr list \<Rightarrow> tactic_state" where
  "set_goals s gs = s\<lparr>goals := gs\<rparr>"

definition get_main_goal_decl :: "tactic_state \<Rightarrow> metavar_decl option" where
  "get_main_goal_decl s = (case goals s of [] \<Rightarrow> None | g # gs \<Rightarrow> map_of (mctx s) g)"

datatype transparency_mode = md_all | md_semireducible | md_instances | md_reducible | md_none

text \<open>The results handed back to the virtual machine.\<close>

datatype vm_obj =
    tactic_success tactic_state
  | tactic_exception string tactic_state
  | no_goals_exception tactic_state

definition mk_tactic_success :: "tactic_state \<Rightarrow> vm_obj" where
  "mk_tactic_success s = tactic_success s"

definition mk_tactic_exception :: "string \<Rightarrow> tactic_state \<Rightarrow> vm_obj" where
  "mk_tactic_exception msg s = tactic_exception msg s"

definition mk_no_goals_exception :: "tactic_state \<Rightarrow> vm_obj" where
  "mk_no_goals_exception s = no_goals_exception s"

fun is_tactic_success :: "vm_obj \<Rightarrow> tactic_state option" where
  "is_tactic_success (tactic_success s) = Some s"
| "is_tactic_success r = None"

type_synonym backward_lemma = expr
type_synonym head_index = name

text \<open>
  What the engine consumes from the tactic layer is a parameter: the type context \<open>'tc\<close>
  with \<^verbatim>\<open>set_mctx\<close> and \<^verbatim>\<open>whnf\<close>, the operator \<^verbatim>\<open>apply\<close> (which receives the type context
  by reference, so it returns the type context it leaves), the materialisation
  \<^verbatim>\<open>blemma.to_expr(ctx)\<close> of a lemma, and the lemma index \<open>'idx\<close>.
\<close>

record ('tc, 'idx) tactic_api =
  mk_type_context_for :: "tactic_state \<Rightarrow> transparency_mode \<Rightarrow> 'tc"
  set_mctx :: "'tc \<Rightarrow> metavar_context \<Rightarrow> 'tc"
  whnf :: "'tc \<Rightarrow> expr \<Rightarrow> expr"
  apply_lemma :: "'tc \<Rightarrow> bool \<Rightarrow> bool \<Rightarrow> expr \<Rightarrow> tactic_state \<Rightarrow> tactic_state option \<times> 'tc"
  to_expr :: "backward_lemma \<Rightarrow> 'tc \<Rightarrow> expr"
  head_index :: "expr \<Rightarrow> head_index"
  backward_lemma_index :: "'tc \<Rightarrow> 'idx"
  index_insert :: "'idx \<Rightarrow> 'tc \<Rightarrow> expr \<Rightarrow> 'idx"
  index_find :: "'idx \<Rightarrow> head_index \<Rightarrow> backward_lemma list"

datatype choice = choice (c_state: tactic_state) (c_lemmas: "backward_lemma list")

text \<open>
  \<^verbatim>\<open>struct back_chaining_fn\<close>. The leaf tactic is the closure \<^verbatim>\<open>m_leaf_tactic\<close> seen through
  \<^verbatim>\<open>is_tactic_success(invoke(m_leaf_tactic, 1, &s))\<close>. The fields \<^verbatim>\<open>m_ctx\<close> and
  \<^verbatim>\<open>m_max_depth\<close> carry the suffix \<open>_bc\<close> here, the names being taken by the normalizer.
\<close>

record ('tc, 'idx) back_chaining_fn =
  m_initial_state :: tactic_state
  m_ctx_bc :: 'tc
  m_use_instances :: bool
  m_max_depth_bc :: "32 word"
  m_leaf_tactic :: "tactic_state \<Rightarrow> tactic_state option"
  m_lemmas :: 'idx
  m_state :: tactic_state
  m_choices :: "choice list"

definition mk_back_chaining_fn ::
  "('tc, 'idx) tactic_api \<Rightarrow> tactic_state \<Rightarrow> transparency_mode \<Rightarrow> bool \<Rightarrow> 32 word \<Rightarrow>
   (tactic_state \<Rightarrow> tactic_state option) \<Rightarrow> expr list \<Rightarrow> ('tc, 'idx) back_chaining_fn" where
  "mk_back_chaining_fn api s md use_instances max_depth leaf_tactic extra_lemmas =
     (let tc = mk_type_context_for api s md in
      \<lparr>m_initial_state = s, m_ctx_bc = tc, m_use_instances = use_instances,
       m_max_depth_bc = max_depth, m_leaf_tactic = leaf_tactic,
       m_lemmas = foldl (\<lambda>idx extra. index_insert api idx tc extra) (backward_lemma_index api tc) extra_lemmas,
       m_state = s, m_choices = []\<rparr>)"

text \<open>
  \<^verbatim>\<open>invoke_leaf_tactic\<close>. \<^verbatim>\<open>head\<close> and \<^verbatim>\<open>tail\<close> of the goals need a goal, as the assertion
  at its start says.
\<close>

definition invoke_leaf_tactic ::
  "('tc, 'idx) back_chaining_fn \<Rightarrow> error + bool \<times> ('tc, 'idx) back_chaining_fn" where
  "invoke_leaf_tactic e =
     (case goals (m_state e) of
        [] \<Rightarrow> Inl assertion_violation
      | g # gs \<Rightarrow>
          (let tmp = set_goals (m_state e) [g] in
           case m_leaf_tactic e tmp of
             Some new_s \<Rightarrow> Inr (True, e\<lparr>m_state := set_goals new_s gs\<rparr>)
           | None \<Rightarrow> Inr (False, e)))"

text \<open>The \<^verbatim>\<open>while (it)\<close> loop of \<^verbatim>\<open>try_lemmas\<close>, and \<^verbatim>\<open>try_lemmas\<close> itself.\<close>

fun try_lemmas_loop ::
  "('tc, 'idx) tactic_api \<Rightarrow> ('tc, 'idx) back_chaining_fn \<Rightarrow> backward_lemma list \<Rightarrow>
   bool \<times> ('tc, 'idx) back_chaining_fn" where
  "try_lemmas_loop api e [] = (False, e)"
| "try_lemmas_loop api e (blemma # rest) =
     (let lemma = to_expr api blemma (m_ctx_bc e) in
      case apply_lemma api (m_ctx_bc e) False (m_use_instances e) lemma (m_state e) of
        (Some new_state, tc) \<Rightarrow>
          (True, e\<lparr>m_ctx_bc := tc,
                   m_choices := (if rest \<noteq> [] then m_choices e @ [choice (m_state e) rest]
                                 else m_choices e),
                   m_state := new_state\<rparr>)
      | (None, tc) \<Rightarrow> try_lemmas_loop api (e\<lparr>m_ctx_bc := tc\<rparr>) rest)"

definition try_lemmas ::
  "('tc, 'idx) tactic_api \<Rightarrow> ('tc, 'idx) back_chaining_fn \<Rightarrow> backward_lemma list \<Rightarrow>
   bool \<times> ('tc, 'idx) back_chaining_fn" where
  "try_lemmas api e lemmas =
     try_lemmas_loop api (e\<lparr>m_ctx_bc := set_mctx api (m_ctx_bc e) (mctx (m_state e))\<rparr>) lemmas"

text \<open>
  \<^verbatim>\<open>backtrack\<close> pops choice points until the remaining lemmas of one apply. A failed
  \<^verbatim>\<open>try_lemmas\<close> pushes nothing, so every round leaves a shorter choice stack.
\<close>

function backtrack ::
  "('tc, 'idx) tactic_api \<Rightarrow> ('tc, 'idx) back_chaining_fn \<Rightarrow> bool \<times> ('tc, 'idx) back_chaining_fn" where
  "backtrack api e =
     (if m_choices e \<noteq> [] then
        (let lemmas = c_lemmas (last (m_choices e));
             e1 = e\<lparr>m_state := c_state (last (m_choices e)), m_choices := butlast (m_choices e)\<rparr>
         in case try_lemmas api e1 lemmas of
              (True, e2) \<Rightarrow> (True, e2)
            | (False, e2) \<Rightarrow> backtrack api e2)
      else (False, e))"
  by pat_completeness auto

termination
proof (relation "measure (\<lambda>(api, e). length (m_choices e))")
  show "wf (measure (\<lambda>(api :: ('tc, 'idx) tactic_api, e :: ('tc, 'idx) back_chaining_fn). length (m_choices e)))"
    by simp
next
  fix api :: "('tc, 'idx) tactic_api" and e ls0 e1 b e2
  assume ne: "m_choices e \<noteq> []"
    and "ls0 = c_lemmas (last (m_choices e))"
    and e1: "e1 = e\<lparr>m_state := c_state (last (m_choices e)), m_choices := butlast (m_choices e)\<rparr>"
    and p: "(b, e2) = try_lemmas api e1 ls0" "b = False"
  have keep: "try_lemmas_loop api x ls = (False, y) \<Longrightarrow> m_choices y = m_choices x" for x y ls
    by (induction ls arbitrary: x) (auto split: prod.splits option.splits simp: Let_def)
  from p have "try_lemmas api e1 ls0 = (False, e2)" by simp
  then have "m_choices e2 = m_choices e1"
    unfolding try_lemmas_def using keep by fastforce
  with e1 ne show "((api, e2), (api, e)) \<in> measure (\<lambda>(api, e). length (m_choices e))"
    by simp
qed

declare backtrack.simps [simp del]

text \<open>
  \<^verbatim>\<open>run\<close> is a \<^verbatim>\<open>while (true)\<close> loop that a lemma such as \<open>P \<rightarrow> P\<close> keeps going for
  ever. \<open>run_iteration\<close> is one pass through the loop body, ending in \<^verbatim>\<open>return\<close> or in
  the next pass (the \<^verbatim>\<open>goto loop_entry\<close> and the end of the body alike); \<open>run\<close> repeats it,
  bounded by the number of passes.
\<close>

datatype 'a loop_step = Return bool 'a | Continue 'a

definition backtrack_or_fail ::
  "('tc, 'idx) tactic_api \<Rightarrow> ('tc, 'idx) back_chaining_fn \<Rightarrow> ('tc, 'idx) back_chaining_fn loop_step" where
  "backtrack_or_fail api e =
     (case backtrack api e of
        (False, e') \<Rightarrow> Return False e'
      | (True, e') \<Rightarrow> Continue e')"

definition run_iteration ::
  "('tc, 'idx) tactic_api \<Rightarrow> ('tc, 'idx) back_chaining_fn \<Rightarrow>
   error + ('tc, 'idx) back_chaining_fn loop_step" where
  "run_iteration api e =
     (if goals (m_state e) = [] then Inr (Return True e)
      else if length (m_choices e) \<ge> unat (m_max_depth_bc e) then Inr (backtrack_or_fail api e)
      else
        (case get_main_goal_decl (m_state e) of
           None \<Rightarrow> Inl assertion_violation
         | Some g \<Rightarrow>
             (let target = whnf api (m_ctx_bc e) (get_type g);
                  lemmas = index_find api (m_lemmas e) (head_index api target)
              in if lemmas = [] then
                   (case invoke_leaf_tactic e of
                      Inl err \<Rightarrow> Inl err
                    | Inr (True, e') \<Rightarrow> Inr (Continue e')
                    | Inr (False, e') \<Rightarrow> Inr (backtrack_or_fail api e'))
                 else
                   (case try_lemmas api e lemmas of
                      (True, e') \<Rightarrow> Inr (Continue e')
                    | (False, e') \<Rightarrow> Inr (backtrack_or_fail api e')))))"

fun run ::
  "nat \<Rightarrow> ('tc, 'idx) tactic_api \<Rightarrow> ('tc, 'idx) back_chaining_fn \<Rightarrow>
   (error + bool \<times> ('tc, 'idx) back_chaining_fn) option" where
  "run 0 api e = None"
| "run (Suc n) api e =
     (case run_iteration api e of
        Inl err \<Rightarrow> Some (Inl err)
      | Inr (Return b e') \<Rightarrow> Some (Inr (b, e'))
      | Inr (Continue e') \<Rightarrow> run n api e')"

text \<open>The engine after \<open>n\<close> passes through the loop body, if the loop is still running.\<close>

fun run_state ::
  "nat \<Rightarrow> ('tc, 'idx) tactic_api \<Rightarrow> ('tc, 'idx) back_chaining_fn \<Rightarrow>
   ('tc, 'idx) back_chaining_fn option" where
  "run_state 0 api e = Some e"
| "run_state (Suc n) api e =
     (case run_iteration api e of
        Inr (Continue e') \<Rightarrow> run_state n api e'
      | _ \<Rightarrow> None)"

text \<open>\<^verbatim>\<open>back_chaining_fn::operator()\<close> and the entry point \<^verbatim>\<open>back_chaining\<close>.\<close>

definition back_chaining_fn_call ::
  "nat \<Rightarrow> ('tc, 'idx) tactic_api \<Rightarrow> ('tc, 'idx) back_chaining_fn \<Rightarrow> (error + vm_obj) option" where
  "back_chaining_fn_call n api e =
     (case goals (m_initial_state e) of
        [] \<Rightarrow> Some (Inl assertion_violation)
      | g # gs \<Rightarrow>
          (case run n api (e\<lparr>m_state := set_goals (m_initial_state e) [g]\<rparr>) of
             None \<Rightarrow> None
           | Some (Inl err) \<Rightarrow> Some (Inl err)
           | Some (Inr (True, e')) \<Rightarrow> Some (Inr (mk_tactic_success (set_goals (m_state e') gs)))
           | Some (Inr (False, e')) \<Rightarrow>
               Some (Inr (mk_tactic_exception
                 ''back_chaining failed, use command 'set_option trace.back_chaining true' to obtain more details''
                 (m_initial_state e')))))"

definition back_chaining ::
  "nat \<Rightarrow> ('tc, 'idx) tactic_api \<Rightarrow> transparency_mode \<Rightarrow> bool \<Rightarrow> 32 word \<Rightarrow>
   (tactic_state \<Rightarrow> tactic_state option) \<Rightarrow> expr list \<Rightarrow> tactic_state \<Rightarrow> (error + vm_obj) option" where
  "back_chaining n api md use_instances max_depth leaf_tactic extra_lemmas s =
     (case get_main_goal_decl s of
        None \<Rightarrow> Some (Inr (mk_no_goals_exception s))
      | Some g \<Rightarrow>
          back_chaining_fn_call n api
            (mk_back_chaining_fn api s md use_instances max_depth leaf_tactic extra_lemmas))"

section \<open>Notions for the statements\<close>

text \<open>
  \<^verbatim>\<open>reify(normalize(e, s, k), k)\<close>, the phrase in which the program normalizes a
  subterm to an expression.
\<close>

definition reify_normalize ::
  "nat \<Rightarrow> imp_config \<Rightarrow> imp \<Rightarrow> expr \<Rightarrow> value_stack \<Rightarrow> 32 word \<Rightarrow> expr res" where
  "reify_normalize n P st e s k = bind_res (normalize n P st e s k) (\<lambda>v st'. reify n P st' v k)"

text \<open>
  A cache holds for a \<open>Type\<close> node nothing but what \<open>normalize\<close> records for it, the node
  itself; so it is in the empty cache and in every cache a run of the normalizer builds.
\<close>

definition type_cached :: "cache \<Rightarrow> level \<Rightarrow> bool" where
  "type_cached c l = (cache_find c (Type l) = None \<or> cache_find c (Type l) = Some (Expr (Type l)))"

text \<open>The engine a pass through the loop body ends with; whether a result is a success.\<close>

fun loop_engine :: "'a loop_step \<Rightarrow> 'a" where
  "loop_engine (Return b e) = e"
| "loop_engine (Continue e) = e"

definition returns_success :: "(error + vm_obj) option \<Rightarrow> bool" where
  "returns_success r = (case r of Some (Inr (tactic_success s)) \<Rightarrow> True | _ \<Rightarrow> False)"

text \<open>
  Modelled from the spec: \<open>substitute(b, i, a)\<close>, the substitution of \<open>a\<close> for the de Bruijn
  index \<open>i\<close> in \<open>b\<close> (the instantiation of the missing expression library): the variable
  \<open>i\<close> becomes \<open>a\<close>, the free variables of \<open>a\<close> lifted past the binders entered on the way
  (\<open>lift_free_vars\<close>), and the variables above \<open>i\<close> drop by one.
\<close>

fun lift_free_vars :: "expr \<Rightarrow> 32 word \<Rightarrow> 32 word \<Rightarrow> expr" where
  "lift_free_vars (Var i) d n = (if d \<le> i then Var (i + n) else Var i)"
| "lift_free_vars (Constant c) d n = Constant c"
| "lift_free_vars (Type l) d n = Type l"
| "lift_free_vars (Value v) d n = Value v"
| "lift_free_vars (App as) d n = App (map (\<lambda>a. lift_free_vars a d n) as)"
| "lift_free_vars (Eq l r) d n = Eq (lift_free_vars l d n) (lift_free_vars r d n)"
| "lift_free_vars (Lambda x t b) d n = Lambda x (lift_free_vars t d n) (lift_free_vars b (d + 1) n)"
| "lift_free_vars (Pi x t b) d n = Pi x (lift_free_vars t d n) (lift_free_vars b (d + 1) n)"
| "lift_free_vars (Let_expr x v b) d n = Let_expr x (lift_free_vars v d n) (lift_free_vars b (d + 1) n)"

fun substitute :: "expr \<Rightarrow> 32 word \<Rightarrow> expr \<Rightarrow> expr" where
  "substitute (Var i) j a = (if i = j then lift_free_vars a 0 j else if j < i then Var (i - 1) else Var i)"
| "substitute (Constant c) j a = Constant c"
| "substitute (Type l) j a = Type l"
| "substitute (Value v) j a = Value v"
| "substitute (App as) j a = App (map (\<lambda>b. substitute b j a) as)"
| "substitute (Eq l r) j a = Eq (substitute l j a) (substitute r j a)"
| "substitute (Lambda x t b) j a = Lambda x (substitute t j a) (substitute b (j + 1) a)"
| "substitute (Pi x t b) j a = Pi x (substitute t j a) (substitute b (j + 1) a)"
| "substitute (Let_expr x v b) j a = Let_expr x (substitute v j a) (substitute b (j + 1) a)"

text \<open>
  \<open>extends r r'\<close>: a call that returns within one bound returns the same within the other;
  \<open>fuel_le n m\<close> says so of every member function at the bounds \<open>n\<close> and \<open>m\<close>.
\<close>

definition extends :: "'a option \<Rightarrow> 'a option \<Rightarrow> bool" where
  "extends r r' \<longleftrightarrow> (r = None \<or> r' = r)"

definition fuel_le :: "nat \<Rightarrow> nat \<Rightarrow> bool" where
  "fuel_le n m \<longleftrightarrow>
     (\<forall>P st a s k. extends (normalize n P st a s k) (normalize m P st a s k))
   \<and> (\<forall>P st s i k. extends (lookup n P st s i k) (lookup m P st s i k))
   \<and> (\<forall>P st a s k. extends (reify_closure n P st a s k) (reify_closure m P st a s k))
   \<and> (\<forall>P st v k. extends (reify n P st v k) (reify m P st v k))
   \<and> (\<forall>P st as s k f i. extends (normalize_app_loop n P st as s k f i) (normalize_app_loop m P st as s k f i))
   \<and> (\<forall>P st as s k i new_args. extends (reify_args n P st as s k i new_args) (reify_args m P st as s k i new_args))"

text \<open>
  \<open>lands c d r\<close>: the call with the outcome \<open>r\<close>, if it has returned or thrown, has left the
  context \<open>c\<close> and the depth \<open>d\<close> in the object; \<open>restores n\<close> says of every member function
  at the bound \<open>n\<close> that it leaves the context and the depth it was entered with.
\<close>

definition lands :: "context \<Rightarrow> 32 word \<Rightarrow> 'a res \<Rightarrow> bool" where
  "lands c d r = (case r of None \<Rightarrow> True | Some (x, st') \<Rightarrow> m_ctx st' = c \<and> m_depth st' = d)"


text \<open>
  Notions for the unfolding of definitions. \<open>closed m a\<close>: every variable of \<open>a\<close> is bound
  in \<open>a\<close> or is one of the \<open>m\<close> innermost variables around \<open>a\<close>, so that \<open>lookup\<close> finds
  its value on a value stack of \<open>m\<close> values and does not read the context. A stack value
  is well formed over a set \<open>B\<close> of levels (\<open>wf_value B\<close>) if its closures are closed over
  their stacks and its bounded variables have their levels in \<open>B\<close>; \<open>shift_levels d\<close> adds \<open>d\<close> to
  the level of every bounded variable, and \<open>value_rel d B\<close> relates a well-formed value to its
  shift.
\<close>

fun closed :: "nat \<Rightarrow> expr \<Rightarrow> bool" where
  "closed m (Var i) = (unat i < m)"
| "closed m (Constant c) = True"
| "closed m (Type l) = True"
| "closed m (Value v) = True"
| "closed m (App as) = (\<forall>a \<in> set as. closed m a)"
| "closed m (Eq l r) = (closed m l \<and> closed m r)"
| "closed m (Lambda x t b) = (closed m t \<and> closed (Suc m) b)"
| "closed m (Pi x t b) = (closed m t \<and> closed (Suc m) b)"
| "closed m (Let_expr x v b) = (closed m v \<and> closed (Suc m) b)"

fun wf_value :: "32 word set \<Rightarrow> svalue \<Rightarrow> bool" where
  "wf_value B (Expr e) = True"
| "wf_value B (BoundedVar j) = (j \<in> B)"
| "wf_value B (Closure a s) = (closed (length s) a \<and> (\<forall>v \<in> set s. wf_value B v))"

fun shift_levels :: "32 word \<Rightarrow> svalue \<Rightarrow> svalue" where
  "shift_levels d (Expr e) = Expr e"
| "shift_levels d (BoundedVar j) = BoundedVar (j + d)"
| "shift_levels d (Closure a s) = Closure a (map (shift_levels d) s)"



definition value_rel :: "32 word \<Rightarrow> 32 word set \<Rightarrow> svalue \<Rightarrow> svalue \<Rightarrow> bool" where
  "value_rel d B x y \<longleftrightarrow> wf_value B x \<and> y = shift_levels d x"



section \<open>Example inputs\<close>

subsection \<open>Normalizer\<close>

text \<open>
  An environment in which no name is a definition, with the universe order of the natural
  numbers, and a normalizer that is not interrupted, shares no node and knows no
  computation rule for a built-in value; \<^verbatim>\<open>max_depth\<close> is the largest \<^verbatim>\<open>unsigned\<close>, the
  default, unless it is set where the configuration is used.
\<close>

definition example_env :: environment where
  "example_env =
     \<lparr>get_object = (\<lambda>n. \<lparr>is_definition = False, is_opaque = False, get_value = Constant n\<rparr>),
      is_ge = (\<lambda>u v. v \<le> u)\<rparr>"

definition example_config :: imp_config where
  "example_config =
     \<lparr>m_env = example_env, m_max_depth = - 1, m_interrupted = False, is_shared = (\<lambda>e. False),
      is_eqp = (=), value_normalize = (\<lambda>v as. None)\<rparr>"

definition id_fn :: expr where
  "id_fn = Lambda ''x'' (Type 0) (Var 0)"

text \<open>Three nested \<open>\<beta>\<close>-redexes: the head of the innermost one is normalized at depth 4.\<close>

definition chain4 :: expr where
  "chain4 = App [id_fn, App [id_fn, App [id_fn, Constant ''c'']]]"

text \<open>A context with one hypothesis \<open>f\<close>, a function on \<open>Type 1\<close>.\<close>

definition ctx_f :: "context" where
  "ctx_f = [\<lparr>get_name = ''f'', get_domain = Pi ''_'' (Type 1) (Type 1), get_body = None\<rparr>]"




text \<open>
  A \<open>\<beta>\<close>-redex under the hypothesis \<open>f\<close>: the function \<open>\<lambda>x y. x\<close> applied to \<open>f (Type 0)\<close>.
\<close>

definition beta_body :: expr where
  "beta_body = Lambda ''y'' (Type 1) (Var 1)"

definition beta_arg :: expr where
  "beta_arg = App [Var 0, Type 0]"

text \<open>A context that defines \<open>g\<close> as the identity function on \<open>Type 1\<close>.\<close>

definition ctx_g :: "context" where
  "ctx_g = [\<lparr>get_name = ''g'', get_domain = Pi ''_'' (Type 1) (Type 1),
            get_body = Some (Lambda ''x'' (Type 1) (Var 0))\<rparr>]"

text \<open>
  The context \<open>a, b, x := a\<close> (innermost first: \<open>x\<close> with the body \<open>Var 1\<close>, then \<open>b\<close>, then
  \<open>a\<close>), and a normalizer for which the node \<open>Var 1\<close>, the body of \<open>x\<close>, is shared.
\<close>

definition ctx_let :: "context" where
  "ctx_let =
     [\<lparr>get_name = ''x'', get_domain = Type 1, get_body = Some (Var 1)\<rparr>,
      \<lparr>get_name = ''b'', get_domain = Type 1, get_body = None\<rparr>,
      \<lparr>get_name = ''a'', get_domain = Type 1, get_body = None\<rparr>]"

definition shared_config :: imp_config where
  "shared_config = example_config\<lparr>is_shared := (\<lambda>e. e = Var 1)\<rparr>"

subsection \<open>Backward chaining\<close>

text \<open>
  A tactic layer for propositional Horn clauses. A goal is a proposition, declared in the
  metavariable context with itself as its type; a lemma is a proposition (a fact) or
  \<open>Pi h a b\<close> (from \<open>a\<close> infer \<open>b\<close>); \<open>example_apply\<close> closes the first goal with a fact of
  its type, or replaces it by the premise of a rule with its type as conclusion. The type
  context is the metavariable context, and the index is the list of the lemmas with
  their heads.
\<close>

fun example_head_index :: "expr \<Rightarrow> head_index" where
  "example_head_index (Constant c) = c"
| "example_head_index (Pi x a b) = example_head_index b"
| "example_head_index e = ''''"

definition example_apply ::
  "metavar_context \<Rightarrow> bool \<Rightarrow> bool \<Rightarrow> expr \<Rightarrow> tactic_state \<Rightarrow> tactic_state option \<times> metavar_context" where
  "example_apply tc all_args use_instances lemma s =
     (case goals s of
        [] \<Rightarrow> (None, tc)
      | g # gs \<Rightarrow>
          (case lemma of
             Pi x a b \<Rightarrow>
               if map_of tc g = Some \<lparr>get_type = b\<rparr>
               then (Some \<lparr>goals = a # gs, mctx = (a, \<lparr>get_type = a\<rparr>) # mctx s\<rparr>, tc)
               else (None, tc)
           | _ \<Rightarrow>
               if map_of tc g = Some \<lparr>get_type = lemma\<rparr>
               then (Some \<lparr>goals = gs, mctx = mctx s\<rparr>, tc)
               else (None, tc)))"

definition example_api :: "(metavar_context, (head_index \<times> backward_lemma) list) tactic_api" where
  "example_api =
     \<lparr>mk_type_context_for = (\<lambda>s md. mctx s),
      set_mctx = (\<lambda>tc m. m),
      whnf = (\<lambda>tc e. e),
      apply_lemma = example_apply,
      to_expr = (\<lambda>blemma tc. blemma),
      head_index = example_head_index,
      backward_lemma_index = (\<lambda>tc. []),
      index_insert = (\<lambda>idx tc e. idx @ [(example_head_index e, e)]),
      index_find = (\<lambda>idx h. map snd (filter (\<lambda>p. fst p = h) idx))\<rparr>"

text \<open>
  States, lemmas, leaf tactics and engines: the goal \<open>P\<close>; the rules \<open>h1: Q \<rightarrow> P\<close> and
  \<open>step: P \<rightarrow> P\<close> and the fact \<open>h2: P\<close>; a leaf tactic that fails and one that returns two
  subgoals of its own; an engine with \<open>max_depth = 2\<close> for the goal \<open>P\<close>, the same engine
  with two choice points stored (of which the last has the lemma \<open>h1\<close> left, or none has
  an applicable lemma left), a state without goals, and an engine on two goals with the
  second leaf tactic.
\<close>

definition goal_P :: tactic_state where
  "goal_P = \<lparr>goals = [Constant ''P''], mctx = [(Constant ''P'', \<lparr>get_type = Constant ''P''\<rparr>)]\<rparr>"

definition leaf_fail :: "tactic_state \<Rightarrow> tactic_state option" where
  "leaf_fail s = None"

definition h1 :: expr where "h1 = Pi ''h'' (Constant ''Q'') (Constant ''P'')"

definition h2 :: expr where "h2 = Constant ''P''"

definition step :: expr where "step = Pi ''h'' (Constant ''P'') (Constant ''P'')"

definition example_engine :: "(metavar_context, (head_index \<times> backward_lemma) list) back_chaining_fn" where
  "example_engine = mk_back_chaining_fn example_api goal_P md_all False 2 leaf_fail [step, h1, h1]"

definition cap_engine :: "(metavar_context, (head_index \<times> backward_lemma) list) back_chaining_fn" where
  "cap_engine = example_engine\<lparr>m_choices := [choice goal_P [Constant ''Z''], choice goal_P [h1]]\<rparr>"

definition spent_engine :: "(metavar_context, (head_index \<times> backward_lemma) list) back_chaining_fn" where
  "spent_engine = example_engine\<lparr>m_choices := [choice goal_P [Constant ''Z''], choice goal_P [Constant ''Z'']]\<rparr>"

definition no_goals :: tactic_state where
  "no_goals = \<lparr>goals = [], mctx = []\<rparr>"

definition goals_P_R :: tactic_state where
  "goals_P_R = \<lparr>goals = [Constant ''P'', Constant ''R''],
                 mctx = [(Constant ''P'', \<lparr>get_type = Constant ''P''\<rparr>), (Constant ''R'', \<lparr>get_type = Constant ''R''\<rparr>)]\<rparr>"

definition leaf_subgoals :: "tactic_state \<Rightarrow> tactic_state option" where
  "leaf_subgoals s = Some \<lparr>goals = [Constant ''S1'', Constant ''S2''], mctx = (Constant ''S1'', \<lparr>get_type = Constant ''S1''\<rparr>) # mctx s\<rparr>"

definition leaf_engine :: "(metavar_context, (head_index \<times> backward_lemma) list) back_chaining_fn" where
  "leaf_engine = example_engine\<lparr>m_state := goals_P_R, m_leaf_tactic := leaf_subgoals\<rparr>"

text \<open>
  The engines in which the goal is \<open>P\<close>, no choice point is stored and \<open>step\<close> is the only
  lemma for \<open>P\<close>.
\<close>

definition stepping :: "(metavar_context, (head_index \<times> backward_lemma) list) back_chaining_fn \<Rightarrow> bool" where
  "stepping e \<longleftrightarrow>
     goals (m_state e) = [Constant ''P'']
     \<and> map_of (mctx (m_state e)) (Constant ''P'') = Some \<lparr>get_type = Constant ''P''\<rparr>
     \<and> m_choices e = [] \<and> m_lemmas e = [(''P'', step)] \<and> m_max_depth_bc e \<noteq> 0"

subsection \<open>A term without a normal form\<close>

text \<open>
  The self-application \<open>(\<lambda>x. x x) (\<lambda>x. x x)\<close>, written with de Bruijn indices.
\<close>

definition self_app :: expr where
  "self_app = App [Var 0, Var 0]"

definition dup_fn :: expr where
  "dup_fn = Lambda ''x'' (Type 0) self_app"

definition omega :: expr where
  "omega = App [dup_fn, dup_fn]"

section \<open>More fuel, same result\<close>

text \<open>
  The bound on nested calls only cuts a run short: a call that returns a value or throws
  within the bound \<open>n\<close> does the same, and leaves the same object, within every larger
  bound. The same holds for the passes of the loop of \<open>run\<close>.
\<close>

lemma extends_refl [simp]: "extends r r"
  by (simp add: extends_def)

lemma extends_None [simp]: "extends None r"
  by (simp add: extends_def)

lemma extends_bind:
  assumes "extends m m'" and "\<And>x st. extends (f x st) (f' x st)"
  shows "extends (bind_res m f) (bind_res m' f')"
proof (cases m)
  case None
  then show ?thesis by (simp add: bind_res_def)
next
  case (Some p)
  with assms(1) have "m' = m" by (simp add: extends_def)
  with assms(2) show ?thesis
    by (auto simp: bind_res_def split: option.splits sum.splits prod.splits)
qed

lemma extends_map_option: "extends r r' \<Longrightarrow> extends (map_option g r) (map_option g r')"
  by (auto simp: extends_def)

lemma extends_wrappers:
  "extends r r' \<Longrightarrow> extends (flet_depth d r) (flet_depth d r')"
  "extends r r' \<Longrightarrow> extends (mk_scope c r) (mk_scope c r')"
  "extends r r' \<Longrightarrow> extends (save_context_exit ctx r) (save_context_exit ctx r')"
  unfolding flet_depth_def mk_scope_def save_context_exit_def by (rule extends_map_option, assumption)+

lemma extends_cache_result: "extends r r' \<Longrightarrow> extends (cache_result shared a r) (cache_result shared a r')"
  unfolding cache_result_def by (rule extends_bind) simp_all

lemma fuel_le_0: "fuel_le 0 m"
  unfolding fuel_le_def normalize.simps(1) lookup.simps(1) reify_closure.simps(1) reify.simps(1)
    normalize_app_loop.simps(1) reify_args.simps(1) by (intro conjI allI extends_None)

lemma fuel_le_Suc:
  assumes "fuel_le n m"
  shows "fuel_le (Suc n) (Suc m)"
proof -
  have
    N: "\<And>P st a s k. extends (normalize n P st a s k) (normalize m P st a s k)"
    and L: "\<And>P st s i k. extends (lookup n P st s i k) (lookup m P st s i k)"
    and RC: "\<And>P st a s k. extends (reify_closure n P st a s k) (reify_closure m P st a s k)"
    and R: "\<And>P st v k. extends (reify n P st v k) (reify m P st v k)"
    and AL: "\<And>P st as s k f i. extends (normalize_app_loop n P st as s k f i) (normalize_app_loop m P st as s k f i)"
    and RA: "\<And>P st as s k i new_args. extends (reify_args n P st as s k i new_args) (reify_args m P st as s k i new_args)"
    using assms unfolding fuel_le_def by auto
  note step = extends_bind extends_wrappers extends_cache_result N L RC R AL RA
  have 1: "extends (normalize (Suc n) P st a s k) (normalize (Suc m) P st a s k)" for P st a s k
    unfolding normalize.simps(2) Let_def
    by (auto intro!: step split: option.splits expr.splits)
  have 2: "extends (lookup (Suc n) P st s i k) (lookup (Suc m) P st s i k)" for P st s i k
    unfolding lookup.simps(2) Let_def
    by (auto intro!: step split: option.splits sum.splits prod.splits)
  have 3: "extends (reify_closure (Suc n) P st a s k) (reify_closure (Suc m) P st a s k)" for P st a s k
    unfolding reify_closure.simps(2)
    by (auto intro!: step split: expr.splits)
  have 4: "extends (reify (Suc n) P st v k) (reify (Suc m) P st v k)" for P st v k
    unfolding reify.simps(2)
    by (auto intro!: step split: svalue.splits)
  have 5: "extends (normalize_app_loop (Suc n) P st as s k f i) (normalize_app_loop (Suc m) P st as s k f i)" for P st as s k f i
    unfolding normalize_app_loop.simps(2)
    by (auto intro!: step split: svalue.splits expr.splits option.splits)
  have 6: "extends (reify_args (Suc n) P st as s k i new_args) (reify_args (Suc m) P st as s k i new_args)" for P st as s k i new_args
    unfolding reify_args.simps(2)
    by (auto intro!: step)
  show ?thesis unfolding fuel_le_def by (intro conjI allI 1 2 3 4 5 6)
qed

lemma fuel_le_add: "fuel_le n (n + d)"
  by (induction n) (simp_all add: fuel_le_0 fuel_le_Suc)

lemma fuel_leD:
  assumes "fuel_le n m"
  shows "extends (normalize n P st a s k) (normalize m P st a s k)"
    and "extends (reify n P st v k) (reify m P st v k)"
  using assms unfolding fuel_le_def by auto


lemma more_fuel_normalize_op:
  assumes "normalize_op n P st e ctx = Some r"
  shows "normalize_op (n + d) P st e ctx = Some r"
proof -
  have "extends (normalize_op n P st e ctx) (normalize_op (n + d) P st e ctx)"
    unfolding normalize_op_def Let_def
    by (intro extends_bind fuel_leD [OF fuel_le_add])
  with assms show ?thesis by (simp add: extends_def)
qed

lemma run_more_fuel:
  "run n api e = Some r \<Longrightarrow> run (n + d) api e = Some r"
proof (induction n arbitrary: e)
  case 0
  then show ?case by simp
next
  case (Suc n)
  show ?case
  proof (cases "run_iteration api e")
    case (Inl err)
    with Suc.prems show ?thesis by simp
  next
    case (Inr step)
    show ?thesis
    proof (cases step)
      case (Return b e')
      with Inr Suc.prems show ?thesis by simp
    next
      case (Continue e')
      with Inr Suc.prems have "run n api e' = Some r" by simp
      from Suc.IH [OF this] Inr Continue show ?thesis by simp
    qed
  qed
qed

section \<open>The depth cap\<close>

text \<open>
  Claim C6. A call of \<open>normalize\<close> that raises the depth counter above \<open>max_depth\<close> throws,
  whatever the expression, the stack and the context are, and returns no value: the
  exception is the kernel exception with the message
  \<open>normalizer maximum recursion depth exceeded\<close> (the interruption check comes first, so
  an interrupted normalizer throws that instead). The object is left as it was entered.
\<close>

theorem normalize_depth_exceeded:
  assumes "m_depth st + 1 > m_max_depth P"
  shows "normalize (Suc n) P st a s k =
           Some (Inl (if m_interrupted P then interrupted
                      else kernel_exception ''normalizer maximum recursion depth exceeded''), st)"
  using assms by (simp add: Let_def flet_depth_def throw_def)

text \<open>
  With \<open>max_depth = 3\<close> the term \<open>chain4\<close> fails, at the call that enters depth 4; with
  \<open>max_depth = 4\<close> it normalizes to \<open>Constant c\<close>.
\<close>

theorem normalize_depth_exceeded_witness:
  "m_depth (imp_init\<lparr>m_depth := 3\<rparr>) + 1 > m_max_depth (example_config\<lparr>m_max_depth := 3\<rparr>)
   \<and> normalize (Suc 0) (example_config\<lparr>m_max_depth := 3\<rparr>) (imp_init\<lparr>m_depth := 3\<rparr>) id_fn [] 0 =
       Some (Inl (kernel_exception ''normalizer maximum recursion depth exceeded''),
             imp_init\<lparr>m_depth := 3\<rparr>)
   \<and> normalize_op 6 (example_config\<lparr>m_max_depth := 3\<rparr>) imp_init chain4 [] =
       Some (Inl (kernel_exception ''normalizer maximum recursion depth exceeded''), imp_init)
   \<and> normalize_op 8 (example_config\<lparr>m_max_depth := 4\<rparr>) imp_init chain4 [] =
       Some (Inr (Constant ''c''), imp_init)"
proof -
  have deep: "m_depth (imp_init\<lparr>m_depth := 3\<rparr>) + 1 > m_max_depth (example_config\<lparr>m_max_depth := 3\<rparr>)"
    by (simp add: example_config_def)
  have inner:
    "normalize (Suc 0) (example_config\<lparr>m_max_depth := 3\<rparr>) (imp_init\<lparr>m_depth := 3\<rparr>) id_fn [] 0 =
       Some (Inl (kernel_exception ''normalizer maximum recursion depth exceeded''),
             imp_init\<lparr>m_depth := 3\<rparr>)"
    using normalize_depth_exceeded [OF deep, of 0 id_fn "[]" 0] by (simp add: example_config_def)
  have fails: "normalize_op 6 (example_config\<lparr>m_max_depth := 3\<rparr>) imp_init chain4 [] =
       Some (Inl (kernel_exception ''normalizer maximum recursion depth exceeded''), imp_init)"
    by code_simp
  have succeeds: "normalize_op 8 (example_config\<lparr>m_max_depth := 4\<rparr>) imp_init chain4 [] =
       Some (Inr (Constant ''c''), imp_init)"
    by code_simp
  from deep inner fails succeeds show ?thesis by simp
qed

section \<open>The equality case\<close>

lemma bind_res_ret [simp]: "bind_res (Some (Inr x, st)) f = f x st"
  by (simp add: bind_res_def)

lemma bind_res_assoc:
  "bind_res (bind_res m f) g = bind_res m (\<lambda>x st. bind_res (f x st) g)"
  by (simp add: bind_res_def split: option.splits sum.splits prod.splits)

lemma reify_Expr: "0 < n \<Longrightarrow> reify n P st (Expr e) k = Some (Inr e, st)"
  by (cases n) (simp_all add: ret_def)

lemma normalize_Eq_unfold:
  assumes "\<not> m_interrupted P" and "\<not> m_depth st + 1 > m_max_depth P"
    and "(if is_shared P (Eq l r) then cache_find (m_cache st) (Eq l r) else None) = None"
  shows "normalize (Suc n) P st (Eq l r) s k =
     flet_depth (m_depth st) (cache_result (is_shared P (Eq l r)) (Eq l r)
       (bind_res (reify_normalize n P (st\<lparr>m_depth := m_depth st + 1\<rparr>) l s k) (\<lambda>new_lhs st3.
        bind_res (reify_normalize n P st3 r s k) (\<lambda>new_rhs st5.
          ret (Expr (if new_lhs = new_rhs then mk_bool_value True
                     else if is_value new_lhs \<and> is_value new_rhs then mk_bool_value False
                     else Eq new_lhs new_rhs)) st5))))"
  using assms
  by (simp add: Let_def reify_normalize_def bind_res_assoc if_distrib [of "\<lambda>x. ret x _"]
      if_distrib [of Expr] cong: if_cong)

text \<open>
  Claim C5. Below the depth cap (and with no interruption and no cached value for the
  node), \<open>normalize\<close> of \<open>Eq l r\<close> normalizes and reifies \<open>l\<close>, then \<open>r\<close>. When both
  return, to \<open>new_lhs\<close> and \<open>new_rhs\<close>, the value is the boolean literal true if the two
  are the same expression, else the boolean literal false if both are built-in values,
  else \<open>Eq new_lhs new_rhs\<close>; the depth is put back and the value is cached if the node
  is shared.
\<close>

theorem normalize_Eq:
  assumes "\<not> m_interrupted P" and "\<not> m_depth st + 1 > m_max_depth P"
    and "(if is_shared P (Eq l r) then cache_find (m_cache st) (Eq l r) else None) = None"
    and "reify_normalize n P (st\<lparr>m_depth := m_depth st + 1\<rparr>) l s k = Some (Inr new_lhs, st1)"
    and "reify_normalize n P st1 r s k = Some (Inr new_rhs, st2)"
  shows "normalize (Suc n) P st (Eq l r) s k =
     flet_depth (m_depth st) (cache_result (is_shared P (Eq l r)) (Eq l r)
       (ret (Expr (if new_lhs = new_rhs then mk_bool_value True
                   else if is_value new_lhs \<and> is_value new_rhs then mk_bool_value False
                   else Eq new_lhs new_rhs)) st2))"
  by (subst normalize_Eq_unfold [OF assms(1-3)]) (simp add: assms(4,5))

text \<open>
  In the empty context \<open>Eq (Value 1) (Value 1)\<close> normalizes to true and
  \<open>Eq (Value 1) (Value 2)\<close> to false; \<open>Eq (Var 0) (Type 0)\<close> under the hypothesis \<open>f\<close>
  stays an equation.
\<close>

theorem normalize_Eq_witness:
  "normalize_op (Suc 2) example_config imp_init (Eq (Value (int_value 1)) (Value (int_value 1))) [] =
     Some (Inr (mk_bool_value True), imp_init)
   \<and> normalize_op (Suc 2) example_config imp_init (Eq (Value (int_value 1)) (Value (int_value 2))) [] =
     Some (Inr (mk_bool_value False), imp_init)
   \<and> normalize_op (Suc 2) example_config imp_init (Eq (Var 0) (Type 0)) ctx_f =
     Some (Inr (Eq (Var 0) (Type 0)), imp_init\<lparr>m_ctx := ctx_f\<rparr>)"
proof -
  let ?P = example_config
  let ?one = "Value (int_value 1)" and ?two = "Value (int_value 2)"
  let ?st = "imp_init\<lparr>m_depth := m_depth imp_init + 1\<rparr>"
  let ?stf = "imp_init\<lparr>m_ctx := ctx_f\<rparr>"
  let ?stf1 = "?stf\<lparr>m_depth := m_depth ?stf + 1\<rparr>"
  have run: "\<not> m_interrupted ?P" "\<not> m_depth st + 1 > m_max_depth ?P" for st
    by (simp_all add: example_config_def)
  have miss: "(if is_shared ?P a then cache_find (m_cache st) a else None) = None" for a st
    by (simp add: example_config_def)
  have one: "reify_normalize 2 ?P ?st ?one [] 0 = Some (Inr ?one, ?st)"
    unfolding reify_normalize_def by code_simp
  have two: "reify_normalize 2 ?P ?st ?two [] 0 = Some (Inr ?two, ?st)"
    unfolding reify_normalize_def by code_simp
  have var: "reify_normalize 2 ?P ?stf1 (Var 0) [] 1 = Some (Inr (Var 0), ?stf1)"
    unfolding reify_normalize_def by code_simp
  have ty: "reify_normalize 2 ?P ?stf1 (Type 0) [] 1 = Some (Inr (Type 0), ?stf1)"
    unfolding reify_normalize_def by code_simp
  have shared: "\<not> is_shared ?P a" for a
    by (simp add: example_config_def)
  have eqp: "is_eqp ?P = (=)"
    by (simp add: example_config_def)
  note defs = normalize_op_def set_ctx_def eqp ctx_size_def flet_depth_def cache_result_def
    ret_def shared imp_init_def reify_Expr
  have a: "normalize_op (Suc 2) ?P imp_init (Eq ?one ?one) [] =
      Some (Inr (mk_bool_value True), imp_init)"
    using normalize_Eq [OF run miss one one] by (simp add: defs del: normalize.simps)
  have b: "normalize_op (Suc 2) ?P imp_init (Eq ?one ?two) [] =
      Some (Inr (mk_bool_value False), imp_init)"
    using normalize_Eq [OF run miss one two] by (simp add: defs del: normalize.simps)
  have c: "normalize_op (Suc 2) ?P imp_init (Eq (Var 0) (Type 0)) ctx_f =
      Some (Inr (Eq (Var 0) (Type 0)), ?stf)"
    using normalize_Eq [OF run miss var ty] by (simp add: defs ctx_f_def del: normalize.simps)
  from a b c show ?thesis by simp
qed

section \<open>Convertibility of universes\<close>

lemma cache_find_insert:
  "cache_find (cache_insert c a r) b = (if b = a then Some r else cache_find c b)"
  by (induction c) (auto simp: cache_find_def)

lemma normalize_Type_value:
  assumes "type_cached (m_cache st) l" and "normalize n P st (Type l) s k = Some (Inr v, st')"
  shows "v = Expr (Type l) \<and> (\<forall>l'. type_cached (m_cache st) l' \<longrightarrow> type_cached (m_cache st') l')"
proof (cases n)
  case 0
  with assms show ?thesis by simp
next
  case (Suc m)
  with assms show ?thesis
    by (auto simp: Let_def flet_depth_def throw_def ret_def cache_result_def type_cached_def
        cache_find_insert split: if_splits option.splits)
qed

lemma normalize_Type_returns:
  assumes "\<not> m_interrupted P" and "\<not> m_depth st + 1 > m_max_depth P"
    and "type_cached (m_cache st) l"
  shows "\<exists>st'. normalize (Suc n) P st (Type l) s k = Some (Inr (Expr (Type l)), st')
           \<and> m_depth st' = m_depth st
           \<and> (\<forall>l'. type_cached (m_cache st) l' \<longrightarrow> type_cached (m_cache st') l')"
  using assms
  by (auto simp: Let_def flet_depth_def throw_def ret_def cache_result_def type_cached_def
        cache_find_insert split: if_splits option.splits)

lemma reify_Expr_value:
  "reify n P st (Expr e) k = Some (Inr x, st') \<Longrightarrow> x = e \<and> st' = st"
  by (cases n) (simp_all add: ret_def)

lemma type_cached_set_ctx:
  "type_cached (m_cache st) l \<Longrightarrow> type_cached (m_cache (set_ctx P st ctx)) l"
  by (simp add: set_ctx_def type_cached_def cache_find_def)

lemma bind_res_returns:
  assumes "bind_res m f = Some (Inr y, st')"
  obtains x st where "m = Some (Inr x, st)" and "f x st = Some (Inr y, st')"
  using assms by (auto simp: bind_res_def split: option.splits sum.splits prod.splits)

lemma core_Type: "is_convertible_core env (Type u) (Type v) = (u = v \<or> is_ge env u v)"
  by (simp add: is_convertible_core_def mk_bool_type_def)

text \<open>
  Claim C7. For universe levels \<open>u\<close> and \<open>v\<close> and every context, \<open>is_convertible\<close> on
  \<open>Type u\<close> and \<open>Type v\<close> returns true exactly when \<open>is_ge u v\<close> holds in the
  environment, whose universe order is a partial order (reflexive: two equal levels are
  convertible by the syntactic test). It returns true without normalizing; otherwise it
  normalizes both sides, so it returns false when a call of \<open>normalize\<close> at this depth is
  allowed, and else throws.
\<close>

theorem is_convertible_Type:
  assumes refl: "is_ge (m_env P) u u"
    and sane: "type_cached (m_cache st) u" "type_cached (m_cache st) v"
  shows "((\<exists>st'. is_convertible n P st (Type u) (Type v) ctx = Some (Inr True, st')) \<longleftrightarrow>
            is_ge (m_env P) u v)
       \<and> (\<not> m_interrupted P \<and> \<not> m_depth st + 1 > m_max_depth P \<and> 0 < n \<longrightarrow>
            (\<exists>st'. is_convertible n P st (Type u) (Type v) ctx = Some (Inr (is_ge (m_env P) u v), st')))"
proof -
  let ?st1 = "set_ctx P st ctx"
  let ?k = "ctx_size (m_ctx ?st1)"
  have core: "is_convertible_core (m_env P) (Type u) (Type v) = is_ge (m_env P) u v"
    using refl by (auto simp: core_Type)
  have sane1: "type_cached (m_cache ?st1) u" "type_cached (m_cache ?st1) v"
    using sane by (simp_all add: type_cached_set_ctx)
  have depth1: "m_depth ?st1 = m_depth st"
    by (simp add: set_ctx_def)
  have yes: "is_convertible n P st (Type u) (Type v) ctx = Some (Inr True, st)" if "is_ge (m_env P) u v"
    using that by (simp add: is_convertible_def core ret_def)
  have no: "b = False" if "\<not> is_ge (m_env P) u v"
    and "is_convertible n P st (Type u) (Type v) ctx = Some (Inr b, st')" for b st'
  proof -
    from that have "bind_res (normalize n P ?st1 (Type u) [] ?k) (\<lambda>ve st2.
         bind_res (reify n P st2 ve ?k) (\<lambda>e_n st3.
         bind_res (normalize n P st3 (Type v) [] ?k) (\<lambda>vg st4.
         bind_res (reify n P st4 vg ?k) (\<lambda>g_n st5.
           ret (is_convertible_core (m_env P) e_n g_n) st5)))) = Some (Inr b, st')"
      by (simp add: is_convertible_def core Let_def)
    then obtain ve st2 e_n st3 vg st4 g_n st5 where
      n1: "normalize n P ?st1 (Type u) [] ?k = Some (Inr ve, st2)"
      and r1: "reify n P st2 ve ?k = Some (Inr e_n, st3)"
      and n2: "normalize n P st3 (Type v) [] ?k = Some (Inr vg, st4)"
      and r2: "reify n P st4 vg ?k = Some (Inr g_n, st5)"
      and b: "ret (is_convertible_core (m_env P) e_n g_n) st5 = Some (Inr b, st')"
      by (elim bind_res_returns) blast
    from normalize_Type_value [OF sane1(1) n1] sane1(2)
    have ve: "ve = Expr (Type u)" and sane2: "type_cached (m_cache st2) v" by blast+
    from r1 ve have e_n: "e_n = Type u" and "st3 = st2" using reify_Expr_value by blast+
    with sane2 n2 have "vg = Expr (Type v)" using normalize_Type_value by blast
    with r2 have "g_n = Type v" using reify_Expr_value by blast
    with e_n b core that(1) show ?thesis by (simp add: ret_def)
  qed
  have total: "\<exists>st'. is_convertible n P st (Type u) (Type v) ctx = Some (Inr (is_ge (m_env P) u v), st')"
    if run0: "\<not> m_interrupted P" "\<not> m_depth st + 1 > m_max_depth P" and n: "0 < n"
  proof (cases "is_ge (m_env P) u v")
    case True
    with yes show ?thesis by simp
  next
    case False
    from run0 have run: "\<not> m_interrupted P" "\<not> m_depth ?st1 + 1 > m_max_depth P"
      by (simp_all add: depth1)
    from n obtain m where m: "n = Suc m" by (cases n) auto
    from normalize_Type_returns [OF run sane1(1), of m "[]" ?k] sane1(2)
    obtain st2 where n1: "normalize n P ?st1 (Type u) [] ?k = Some (Inr (Expr (Type u)), st2)"
      and d2: "m_depth st2 = m_depth ?st1" and sane2: "type_cached (m_cache st2) v"
      unfolding m by blast
    from run d2 have run2: "\<not> m_depth st2 + 1 > m_max_depth P" by simp
    from normalize_Type_returns [OF run(1) run2 sane2, of m "[]" ?k]
    obtain st4 where n2: "normalize n P st2 (Type v) [] ?k = Some (Inr (Expr (Type v)), st4)"
      unfolding m by blast
    have r: "reify n P s' (Expr e) ?k = Some (Inr e, s')" for s' e
      unfolding m by (simp add: ret_def)
    from False show ?thesis
      by (simp add: is_convertible_def core Let_def n1 n2 r ret_def)
  qed
  from yes no total show ?thesis by fastforce
qed


text \<open>\<open>Type 2\<close> is expected and \<open>Type 1\<close> given: convertible; the other way round: not.\<close>

theorem is_convertible_Type_witness:
  "is_ge (m_env example_config) 2 2
   \<and> type_cached (m_cache imp_init) 2 \<and> type_cached (m_cache imp_init) 1
   \<and> is_ge (m_env example_config) 2 1
   \<and> is_convertible 1 example_config imp_init (Type 2) (Type 1) [] = Some (Inr True, imp_init)
   \<and> \<not> is_ge (m_env example_config) 1 2
   \<and> is_convertible 1 example_config imp_init (Type 1) (Type 2) [] = Some (Inr False, imp_init)"
proof -
  let ?P = example_config
  have ge: "is_ge (m_env ?P) u v \<longleftrightarrow> v \<le> u" for u v
    by (simp add: example_config_def example_env_def)
  have sane: "type_cached (m_cache imp_init) l" for l
    by (simp add: type_cached_def imp_init_def cache_find_def)
  have run: "\<not> m_interrupted ?P \<and> \<not> m_depth imp_init + 1 > m_max_depth ?P \<and> 0 < (1::nat)"
    by (simp add: example_config_def imp_init_def)
  have down: "is_convertible 1 ?P imp_init (Type 2) (Type 1) [] = Some (Inr True, imp_init)"
    by code_simp
  have up: "is_convertible 1 ?P imp_init (Type 1) (Type 2) [] = Some (Inr False, imp_init)"
    by code_simp
  from is_convertible_Type [of ?P 2 imp_init 1 1 "[]"] is_convertible_Type [of ?P 1 imp_init 2 1 "[]"]
  have "(\<exists>st'. is_convertible 1 ?P imp_init (Type 2) (Type 1) [] = Some (Inr True, st'))"
    and "\<not> (\<exists>st'. is_convertible 1 ?P imp_init (Type 1) (Type 2) [] = Some (Inr True, st'))"
    using sane by (simp_all add: ge)
  with down up sane show ?thesis by (simp add: ge)
qed

section \<open>The leaf tactic\<close>

text \<open>
  Claim C10. The leaf tactic is invoked on the state focused on the first goal \<open>g\<close>. When
  it succeeds with the state \<open>new_s\<close>, the engine's state becomes \<open>new_s\<close> with its goals
  replaced by the goals \<open>gs\<close> behind \<open>g\<close>: the goals of \<open>new_s\<close> are dropped, its
  metavariable context is kept, and nothing else in the engine changes. When it fails,
  the engine is unchanged.
\<close>

theorem invoke_leaf_tactic_result:
  assumes "goals (m_state e) = g # gs"
  shows "(m_leaf_tactic e (set_goals (m_state e) [g]) = Some new_s \<longrightarrow>
            invoke_leaf_tactic e = Inr (True, e\<lparr>m_state := set_goals new_s gs\<rparr>)
            \<and> goals (set_goals new_s gs) = gs \<and> mctx (set_goals new_s gs) = mctx new_s)
       \<and> (m_leaf_tactic e (set_goals (m_state e) [g]) = None \<longrightarrow>
            invoke_leaf_tactic e = Inr (False, e))"
  using assms by (simp add: invoke_leaf_tactic_def set_goals_def)

text \<open>
  On the goals \<open>P\<close> and \<open>R\<close> a leaf tactic that returns the subgoals \<open>S1\<close> and \<open>S2\<close> leaves the
  engine with the goal \<open>R\<close> alone; the failing leaf tactic leaves the engine as it was.
\<close>

theorem invoke_leaf_tactic_result_witness:
  "goals (m_state leaf_engine) = Constant ''P'' # [Constant ''R'']
   \<and> invoke_leaf_tactic leaf_engine =
       Inr (True, leaf_engine\<lparr>m_state :=
         \<lparr>goals = [Constant ''R''],
          mctx = (Constant ''S1'', \<lparr>get_type = Constant ''S1''\<rparr>) # mctx goals_P_R\<rparr>\<rparr>)
   \<and> invoke_leaf_tactic (leaf_engine\<lparr>m_leaf_tactic := leaf_fail\<rparr>) =
       Inr (False, leaf_engine\<lparr>m_leaf_tactic := leaf_fail\<rparr>)"
proof -
  have gs: "goals (m_state leaf_engine) = Constant ''P'' # [Constant ''R'']"
    "goals (m_state (leaf_engine\<lparr>m_leaf_tactic := leaf_fail\<rparr>)) = Constant ''P'' # [Constant ''R'']"
    by (simp_all add: leaf_engine_def goals_P_R_def)
  have leaf: "m_leaf_tactic leaf_engine = leaf_subgoals"
    by (simp add: leaf_engine_def)
  from invoke_leaf_tactic_result [OF gs(1), of "the (leaf_subgoals (set_goals (m_state leaf_engine) [Constant ''P'']))"]
    invoke_leaf_tactic_result [OF gs(2)] gs(1)
  show ?thesis
    by (simp add: leaf leaf_subgoals_def leaf_fail_def set_goals_def) (simp add: leaf_engine_def)
qed

section \<open>A state without goals\<close>

text \<open>
  Claim C3, as the program has it. On a state without goals the entry point
  \<open>back_chaining\<close> returns at once, whatever the leaf tactic and the lemmas are, and what it
  returns is the no-goals exception, not a success: \<^verbatim>\<open>get_main_goal_decl\<close> finds no goal.
  It is the loop \<open>run\<close> that returns success at once on an engine whose state has no
  goals.
\<close>

theorem back_chaining_no_goals:
  assumes "goals s = []"
  shows "back_chaining n api md use_instances max_depth leaf_tactic extra_lemmas s =
           Some (Inr (mk_no_goals_exception s))
       \<and> is_tactic_success (mk_no_goals_exception s) = None
       \<and> (goals (m_state e) = [] \<longrightarrow> run (Suc n) api e = Some (Inr (True, e)))"
  using assms
  by (simp add: back_chaining_def get_main_goal_decl_def mk_no_goals_exception_def run_iteration_def)

theorem back_chaining_no_goals_witness:
  "goals no_goals = []
   \<and> back_chaining 5 example_api md_all False 8 leaf_subgoals [h1, h2] no_goals =
       Some (Inr (mk_no_goals_exception no_goals))
   \<and> run (Suc 5) example_api (example_engine\<lparr>m_state := no_goals\<rparr>) =
       Some (Inr (True, example_engine\<lparr>m_state := no_goals\<rparr>))"
proof -
  have g: "goals no_goals = []" by (simp add: no_goals_def)
  from back_chaining_no_goals [OF g, of 5 example_api md_all False 8 leaf_subgoals "[h1, h2]"
      "example_engine\<lparr>m_state := no_goals\<rparr>"] g
  show ?thesis by simp
qed

text \<open>The entry point on the state without goals does not return a success.\<close>

theorem back_chaining_no_goals_counterexample:
  "goals no_goals = []
   \<and> \<not> returns_success (back_chaining 5 example_api md_all False 8 leaf_fail [h1, h2] no_goals)"
  by (simp add: no_goals_def back_chaining_def get_main_goal_decl_def mk_no_goals_exception_def
      returns_success_def)

section \<open>The bound on the choice stack\<close>

lemma try_lemmas_loop_choices:
  "try_lemmas_loop api e ls = (b, e') \<Longrightarrow>
     m_max_depth_bc e' = m_max_depth_bc e \<and> length (m_choices e') \<le> Suc (length (m_choices e))
     \<and> (\<not> b \<longrightarrow> m_choices e' = m_choices e)"
proof (induction ls arbitrary: e)
  case Nil
  then show ?case by simp
next
  case (Cons blemma rest)
  obtain r tc where a: "apply_lemma api (m_ctx_bc e) False (m_use_instances e)
      (to_expr api blemma (m_ctx_bc e)) (m_state e) = (r, tc)"
    by (cases "apply_lemma api (m_ctx_bc e) False (m_use_instances e)
      (to_expr api blemma (m_ctx_bc e)) (m_state e)")
  show ?case
  proof (cases r)
    case None
    with Cons.prems a have "try_lemmas_loop api (e\<lparr>m_ctx_bc := tc\<rparr>) rest = (b, e')"
      by (simp add: Let_def)
    from Cons.IH [OF this] show ?thesis by simp
  next
    case (Some new_state)
    with Cons.prems a show ?thesis by (auto simp: Let_def)
  qed
qed

lemma try_lemmas_choices:
  assumes "try_lemmas api e ls = (b, e')"
  shows "m_max_depth_bc e' = m_max_depth_bc e" and "length (m_choices e') \<le> Suc (length (m_choices e))"
    and "\<not> b \<Longrightarrow> m_choices e' = m_choices e"
  using try_lemmas_loop_choices [OF assms [unfolded try_lemmas_def]] by simp_all

lemma backtrack_choices:
  "backtrack api e = (b, e') \<Longrightarrow>
     m_max_depth_bc e' = m_max_depth_bc e \<and> length (m_choices e') \<le> length (m_choices e)
     \<and> (\<not> b \<longrightarrow> m_choices e' = [])"
proof (induction api e arbitrary: b e' rule: backtrack.induct)
  case (1 api e)
  show ?case
  proof (cases "m_choices e = []")
    case True
    with "1.prems" show ?thesis by (simp add: backtrack.simps [of api e])
  next
    case False
    let ?e1 = "e\<lparr>m_state := c_state (last (m_choices e)), m_choices := butlast (m_choices e)\<rparr>"
    let ?ls = "c_lemmas (last (m_choices e))"
    obtain b2 e2 where t: "try_lemmas api ?e1 ?ls = (b2, e2)" by (cases "try_lemmas api ?e1 ?ls")
    note tc = try_lemmas_choices [OF t]
    from False have len: "Suc (length (m_choices ?e1)) = length (m_choices e)" by simp
    show ?thesis
    proof (cases b2)
      case True
      with "1.prems" False t have "b = True" "e' = e2" by (simp_all add: backtrack.simps [of api e])
      with tc len show ?thesis by simp
    next
      case b2: False
      with "1.prems" False t have "backtrack api e2 = (b, e')" by (simp add: backtrack.simps [of api e])
      from "1.IH" [OF False refl refl t [symmetric] _ this] b2
      have "m_max_depth_bc e' = m_max_depth_bc e2 \<and> length (m_choices e') \<le> length (m_choices e2)
        \<and> (\<not> b \<longrightarrow> m_choices e' = [])" by simp
      with tc b2 len show ?thesis by simp
    qed
  qed
qed

lemma backtrack_or_fail_choices:
  "m_max_depth_bc (loop_engine (backtrack_or_fail api e)) = m_max_depth_bc e"
  "length (m_choices (loop_engine (backtrack_or_fail api e))) \<le> length (m_choices e)"
proof -
  obtain b e' where bt: "backtrack api e = (b, e')" by (cases "backtrack api e")
  from backtrack_choices [OF bt]
  show "m_max_depth_bc (loop_engine (backtrack_or_fail api e)) = m_max_depth_bc e"
    and "length (m_choices (loop_engine (backtrack_or_fail api e))) \<le> length (m_choices e)"
    by (cases b; simp add: backtrack_or_fail_def bt)+
qed

lemma invoke_leaf_tactic_choices:
  "invoke_leaf_tactic e = Inr (b, e') \<Longrightarrow>
     m_max_depth_bc e' = m_max_depth_bc e \<and> m_choices e' = m_choices e"
  by (auto simp: invoke_leaf_tactic_def Let_def split: list.splits option.splits)

lemma run_iteration_choices:
  assumes inv: "length (m_choices e) \<le> unat (m_max_depth_bc e)"
    and r: "run_iteration api e = Inr r"
  shows "m_max_depth_bc (loop_engine r) = m_max_depth_bc e
       \<and> length (m_choices (loop_engine r)) \<le> unat (m_max_depth_bc e)"
proof -
  consider (solved) "goals (m_state e) = []"
    | (cap) "goals (m_state e) \<noteq> []" "unat (m_max_depth_bc e) \<le> length (m_choices e)"
    | (search) "goals (m_state e) \<noteq> []" "length (m_choices e) < unat (m_max_depth_bc e)"
    by linarith
  then show ?thesis
  proof cases
    case solved
    with r inv show ?thesis by (auto simp: run_iteration_def)
  next
    case cap
    with r have "r = backtrack_or_fail api e" by (simp add: run_iteration_def)
    with inv backtrack_or_fail_choices [of api e] show ?thesis by simp
  next
    case search
    then have nocap: "\<not> unat (m_max_depth_bc e) \<le> length (m_choices e)" by simp
    from r search(1) nocap obtain g where g: "get_main_goal_decl (m_state e) = Some g"
      by (auto simp: run_iteration_def split: option.splits)
    let ?ls = "index_find api (m_lemmas e) (head_index api (whnf api (m_ctx_bc e) (get_type g)))"
    show ?thesis
    proof (cases "?ls = []")
      case True
      with r search(1) nocap g obtain b e1 where leaf: "invoke_leaf_tactic e = Inr (b, e1)"
        and r1: "r = (if b then Continue e1 else backtrack_or_fail api e1)"
        by (auto simp: run_iteration_def Let_def split: sum.splits prod.splits bool.splits)
      from invoke_leaf_tactic_choices [OF leaf] r1 inv backtrack_or_fail_choices [of api e1]
      show ?thesis by (cases b) simp_all
    next
      case False
      obtain b e1 where t: "try_lemmas api e ?ls = (b, e1)" by (cases "try_lemmas api e ?ls")
      with r search(1) nocap g False have r1: "r = (if b then Continue e1 else backtrack_or_fail api e1)"
        by (auto simp: run_iteration_def Let_def split: bool.splits)
      from try_lemmas_choices [OF t] r1 search(2) backtrack_or_fail_choices [of api e1]
      show ?thesis by (cases b) simp_all
    qed
  qed
qed

lemma run_state_choices:
  "length (m_choices e) \<le> unat (m_max_depth_bc e) \<Longrightarrow> run_state n api e = Some e' \<Longrightarrow>
     m_max_depth_bc e' = m_max_depth_bc e \<and> length (m_choices e') \<le> unat (m_max_depth_bc e)"
proof (induction n arbitrary: e)
  case 0
  then show ?case by simp
next
  case (Suc n)
  from Suc.prems(2) obtain e1 where it: "run_iteration api e = Inr (Continue e1)"
    and rest: "run_state n api e1 = Some e'"
    by (auto split: sum.splits loop_step.splits)
  from run_iteration_choices [OF Suc.prems(1) it]
  have e1: "m_max_depth_bc e1 = m_max_depth_bc e" "length (m_choices e1) \<le> unat (m_max_depth_bc e1)"
    by simp_all
  from Suc.IH [OF e1(2) rest] e1(1) show ?case by simp
qed

lemma run_choices:
  "length (m_choices e) \<le> unat (m_max_depth_bc e) \<Longrightarrow> run n api e = Some (Inr (b, e')) \<Longrightarrow>
     m_max_depth_bc e' = m_max_depth_bc e \<and> length (m_choices e') \<le> unat (m_max_depth_bc e)"
proof (induction n arbitrary: e)
  case 0
  then show ?case by simp
next
  case (Suc n)
  show ?case
  proof (cases "run_iteration api e")
    case (Inl err)
    with Suc.prems(2) show ?thesis by simp
  next
    case (Inr r)
    note inv = run_iteration_choices [OF Suc.prems(1) Inr]
    show ?thesis
    proof (cases r)
      case (Return b1 e1)
      with Suc.prems(2) Inr inv show ?thesis by simp
    next
      case (Continue e1)
      with Suc.prems(2) Inr have "run n api e1 = Some (Inr (b, e'))" by simp
      with Suc.IH [of e1] inv Continue show ?thesis by simp
    qed
  qed
qed

lemma backtrack_or_fail_Return:
  "backtrack_or_fail api e = Return b e' \<Longrightarrow> \<not> b \<and> m_choices e' = []"
  using backtrack_choices [of api e] 
  by (auto simp: backtrack_or_fail_def split: prod.splits bool.splits)

lemma run_iteration_Return:
  assumes "run_iteration api e = Inr (Return b e')"
  shows "if b then e' = e \<and> goals (m_state e) = [] else m_choices e' = []"
proof (cases "goals (m_state e) = []")
  case True
  with assms show ?thesis by (simp add: run_iteration_def)
next
  case False
  note goal = False
  show ?thesis
  proof (cases "unat (m_max_depth_bc e) \<le> length (m_choices e)")
    case True
    with assms goal have "backtrack_or_fail api e = Return b e'" by (simp add: run_iteration_def)
    from backtrack_or_fail_Return [OF this] show ?thesis by simp
  next
    case False
    with assms goal obtain g where g: "get_main_goal_decl (m_state e) = Some g"
      by (auto simp: run_iteration_def split: option.splits)
    let ?ls = "index_find api (m_lemmas e) (head_index api (whnf api (m_ctx_bc e) (get_type g)))"
    show ?thesis
    proof (cases "?ls = []")
      case True
      with assms goal False g obtain b1 e1 where leaf: "invoke_leaf_tactic e = Inr (b1, e1)"
        and r1: "Return b e' = (if b1 then Continue e1 else backtrack_or_fail api e1)"
        by (auto simp: run_iteration_def Let_def split: sum.splits prod.splits bool.splits)
      from r1 have "backtrack_or_fail api e1 = Return b e'" by (cases b1) simp_all
      from backtrack_or_fail_Return [OF this] show ?thesis by simp
    next
      case nonempty: False
      obtain b1 e1 where t: "try_lemmas api e ?ls = (b1, e1)" by (cases "try_lemmas api e ?ls")
      with assms goal False g nonempty
      have r1: "Return b e' = (if b1 then Continue e1 else backtrack_or_fail api e1)"
        by (auto simp: run_iteration_def Let_def split: bool.splits)
      then have "backtrack_or_fail api e1 = Return b e'" by (cases b1) simp_all
      from backtrack_or_fail_Return [OF this] show ?thesis by simp
    qed
  qed
qed

lemma run_returns:
  "run n api e = Some (Inr (b, e')) \<Longrightarrow>
     if b then goals (m_state e') = [] else m_choices e' = []"
proof (induction n arbitrary: e)
  case 0
  then show ?case by simp
next
  case (Suc n)
  show ?case
  proof (cases "run_iteration api e")
    case (Inl err)
    with Suc.prems show ?thesis by simp
  next
    case (Inr r)
    show ?thesis
    proof (cases r)
      case (Return b1 e1)
      with Suc.prems Inr have "b1 = b" "e1 = e'" by simp_all
      with run_iteration_Return [of api e b e'] Inr Return show ?thesis
        by (cases b) simp_all
    next
      case (Continue e1)
      with Suc.prems Inr have "run n api e1 = Some (Inr (b, e'))" by simp
      from Suc.IH [OF this] show ?thesis .
    qed
  qed
qed

lemma run_at_cap:
  assumes "goals (m_state e) \<noteq> []" and "unat (m_max_depth_bc e) \<le> length (m_choices e)"
  shows "run (Suc n) api e =
           (case backtrack api e of
              (False, e1) \<Rightarrow> Some (Inr (False, e1))
            | (True, e1) \<Rightarrow> run n api e1)"
proof -
  have "run_iteration api e = Inr (backtrack_or_fail api e)"
    unfolding run_iteration_def if_not_P [OF assms(1)] if_P [OF assms(2)] ..
  then show ?thesis
    by (cases "backtrack api e") (auto simp: backtrack_or_fail_def split: bool.splits)
qed

text \<open>
  Claim C8. With \<open>max_depth = d\<close> and a choice stack of at most \<open>d\<close> choice points (the
  constructor leaves none), every engine the loop of \<open>run\<close> passes through, and the one
  \<open>run\<close> returns with, has at most \<open>d\<close> choice points, hence never more than \<open>d + 1\<close>; and
  \<open>run\<close> returns failure only with the choice stack empty. On an engine with a goal and
  with \<open>d\<close> or more choice points, \<open>run\<close> does \<open>backtrack\<close> and nothing else: no lemma of
  the index and no leaf tactic is tried on the current goal. If \<open>backtrack\<close> succeeds,
  \<open>run\<close> goes on from the engine \<open>backtrack\<close> leaves; if it fails, which it does only
  with the choice stack empty, \<open>run\<close> returns failure with that engine.
\<close>

theorem run_choices_bounded:
  assumes "length (m_choices e) \<le> unat (m_max_depth_bc e)"
  shows "(run_state n api e = Some e' \<longrightarrow> length (m_choices e') \<le> unat (m_max_depth_bc e))
       \<and> (run n api e = Some (Inr (b, e'')) \<longrightarrow>
            length (m_choices e'') \<le> unat (m_max_depth_bc e) \<and> (\<not> b \<longrightarrow> m_choices e'' = []))
       \<and> (goals (m_state e) \<noteq> [] \<and> unat (m_max_depth_bc e) \<le> length (m_choices e) \<longrightarrow>
            run_iteration api e =
              Inr (case backtrack api e of
                     (False, e1) \<Rightarrow> Return False e1
                   | (True, e1) \<Rightarrow> Continue e1)
            \<and> run (Suc n) api e =
                (case backtrack api e of
                   (False, e1) \<Rightarrow> Some (Inr (False, e1))
                 | (True, e1) \<Rightarrow> run n api e1)
            \<and> (fst (backtrack api e) = False \<longrightarrow> m_choices (snd (backtrack api e)) = []))"
proof -
  have states: "length (m_choices e') \<le> unat (m_max_depth_bc e)" if "run_state n api e = Some e'"
    using run_state_choices [OF assms that] by simp
  have final: "length (m_choices e'') \<le> unat (m_max_depth_bc e)" if "run n api e = Some (Inr (b, e''))"
    using run_choices [OF assms that] by simp
  have failure: "m_choices e'' = []" if "run n api e = Some (Inr (b, e''))" "\<not> b"
    using run_returns [OF that(1)] that(2) by simp
  have cap: "run_iteration api e =
      Inr (case backtrack api e of (False, e1) \<Rightarrow> Return False e1 | (True, e1) \<Rightarrow> Continue e1)"
    if "goals (m_state e) \<noteq> []" "unat (m_max_depth_bc e) \<le> length (m_choices e)"
    unfolding run_iteration_def backtrack_or_fail_def if_not_P [OF that(1)] if_P [OF that(2)] ..
  have exhausted: "m_choices (snd (backtrack api e)) = []" if "fst (backtrack api e) = False"
  proof -
    from that have "backtrack api e = (False, snd (backtrack api e))"
      by (cases "backtrack api e") simp
    from backtrack_choices [OF this] show ?thesis by simp
  qed
  show ?thesis
  proof (intro conjI impI)
    show "length (m_choices e') \<le> unat (m_max_depth_bc e)" if "run_state n api e = Some e'"
      using that by (rule states)
    show "length (m_choices e'') \<le> unat (m_max_depth_bc e)" if "run n api e = Some (Inr (b, e''))"
      using that by (rule final)
    show "m_choices e'' = []" if "run n api e = Some (Inr (b, e''))" "\<not> b"
      using that by (rule failure)
    show "run_iteration api e =
      Inr (case backtrack api e of (False, e1) \<Rightarrow> Return False e1 | (True, e1) \<Rightarrow> Continue e1)"
      if "goals (m_state e) \<noteq> [] \<and> unat (m_max_depth_bc e) \<le> length (m_choices e)"
      using cap [OF conjunct1 [OF that] conjunct2 [OF that]] .
    show "run (Suc n) api e =
        (case backtrack api e of (False, e1) \<Rightarrow> Some (Inr (False, e1)) | (True, e1) \<Rightarrow> run n api e1)"
      if "goals (m_state e) \<noteq> [] \<and> unat (m_max_depth_bc e) \<le> length (m_choices e)"
      using run_at_cap [OF conjunct1 [OF that] conjunct2 [OF that]] .
    show "m_choices (snd (backtrack api e)) = []" if "fst (backtrack api e) = False"
      using that by (rule exhausted)
  qed
qed

text \<open>
  The engine for \<open>P\<close> with the lemmas \<open>step\<close>, \<open>h1\<close>, \<open>h1\<close> and \<open>max_depth = 2\<close> holds two
  choice points after three passes and fails with none left. Started at the cap with two
  choice points of which the last has \<open>h1\<close> left, \<open>run\<close> backtracks to the goal \<open>Q\<close> with
  one choice point, goes on from there and fails on the goal \<open>P\<close> with none left; started
  with two choice points that have no applicable lemma left, \<open>run\<close> returns failure at
  once, on the goal \<open>P\<close> with none left.
\<close>

theorem run_choices_bounded_witness:
  "length (m_choices example_engine) \<le> unat (m_max_depth_bc example_engine)
   \<and> map_option (\<lambda>e. length (m_choices e)) (run_state 3 example_api example_engine) = Some 2
   \<and> map_option (map_sum id (\<lambda>(b, e). (b, length (m_choices e)))) (run 20 example_api example_engine) =
       Some (Inr (False, 0))
   \<and> goals (m_state cap_engine) \<noteq> []
   \<and> unat (m_max_depth_bc cap_engine) \<le> length (m_choices cap_engine)
   \<and> map_sum id (\<lambda>r. case r of Continue e \<Rightarrow> (None, goals (m_state e), length (m_choices e))
                               | Return b e \<Rightarrow> (Some b, goals (m_state e), length (m_choices e)))
        (run_iteration example_api cap_engine) = Inr (None, [Constant ''Q''], 1)
   \<and> run (Suc 19) example_api cap_engine = run 19 example_api (snd (backtrack example_api cap_engine))
   \<and> map_option (map_sum id (\<lambda>(b, e). (b, goals (m_state e), length (m_choices e))))
        (run (Suc 19) example_api cap_engine) = Some (Inr (False, [Constant ''P''], 0))
   \<and> length (m_choices spent_engine) = 2
   \<and> map_sum id (\<lambda>r. case r of Continue e \<Rightarrow> (None, goals (m_state e), length (m_choices e))
                               | Return b e \<Rightarrow> (Some b, goals (m_state e), length (m_choices e)))
        (run_iteration example_api spent_engine) = Inr (Some False, [Constant ''P''], 0)
   \<and> map_option (map_sum id (\<lambda>(b, e). (b, goals (m_state e), length (m_choices e))))
        (run (Suc 0) example_api spent_engine) = Some (Inr (False, [Constant ''P''], 0))"
proof -
  have inv: "length (m_choices example_engine) \<le> unat (m_max_depth_bc example_engine)"
    by code_simp
  have s3: "map_option (\<lambda>e. length (m_choices e)) (run_state 3 example_api example_engine) = Some 2"
    by code_simp
  have r20: "map_option (map_sum id (\<lambda>(b, e). (b, length (m_choices e)))) (run 20 example_api example_engine) =
       Some (Inr (False, 0))"
    by code_simp
  have cap: "goals (m_state cap_engine) \<noteq> []" "unat (m_max_depth_bc cap_engine) \<le> length (m_choices cap_engine)"
    "length (m_choices cap_engine) \<le> unat (m_max_depth_bc cap_engine)"
    by code_simp+
  have spent0: "goals (m_state spent_engine) \<noteq> []" "unat (m_max_depth_bc spent_engine) \<le> length (m_choices spent_engine)"
    "length (m_choices spent_engine) \<le> unat (m_max_depth_bc spent_engine)" "length (m_choices spent_engine) = 2"
    by code_simp+
  have bt: "map_prod id (\<lambda>e. (goals (m_state e), length (m_choices e))) (backtrack example_api cap_engine) =
      (True, [Constant ''Q''], 1)"
    by code_simp
  have bts: "map_prod id (\<lambda>e. goals (m_state e)) (backtrack example_api spent_engine) =
      (False, [Constant ''P''])"
    by code_simp
  have rest: "map_option (map_sum id (\<lambda>(b, e). (b, goals (m_state e), length (m_choices e))))
        (run 19 example_api (snd (backtrack example_api cap_engine))) = Some (Inr (False, [Constant ''P''], 0))"
    by code_simp
  have spent: "map_sum id (\<lambda>r. case r of Continue e \<Rightarrow> (None, goals (m_state e), length (m_choices e))
                               | Return b e \<Rightarrow> (Some b, goals (m_state e), length (m_choices e)))
        (run_iteration example_api spent_engine) = Inr (Some False, [Constant ''P''], 0)"
    by code_simp
  from s3 obtain e3 where e3: "run_state 3 example_api example_engine = Some e3"
    by (cases "run_state 3 example_api example_engine") auto
  from run_choices_bounded [OF inv, of 3 example_api e3] e3
  have "length (m_choices e3) \<le> unat (m_max_depth_bc example_engine)" by simp
  note at_cap = run_choices_bounded [OF cap(3), of 19 example_api cap_engine, THEN conjunct2, THEN conjunct2,
      rule_format, OF conjI [OF cap(1,2)]]
  from at_cap bt have it: "map_sum id (\<lambda>r. case r of Continue e \<Rightarrow> (None, goals (m_state e), length (m_choices e))
                               | Return b e \<Rightarrow> (Some b, goals (m_state e), length (m_choices e)))
        (run_iteration example_api cap_engine) = Inr (None, [Constant ''Q''], 1)"
    by (cases "backtrack example_api cap_engine") auto
  from at_cap bt have go: "run (Suc 19) example_api cap_engine =
      run 19 example_api (snd (backtrack example_api cap_engine))"
    by (cases "backtrack example_api cap_engine") (auto simp del: run.simps)
  note at_spent = run_choices_bounded [OF spent0(3), of 0 example_api spent_engine, THEN conjunct2, THEN conjunct2,
      rule_format, OF conjI [OF spent0(1,2)]]
  from at_spent bts have stop: "map_option (map_sum id (\<lambda>(b, e). (b, goals (m_state e), length (m_choices e))))
        (run (Suc 0) example_api spent_engine) = Some (Inr (False, [Constant ''P''], 0))"
    by (cases "backtrack example_api spent_engine") (auto simp del: run.simps)
  from inv s3 r20 cap(1,2) it go rest spent0(4) spent stop show ?thesis
    by (simp del: run.simps)
qed

text \<open>
  The bound is on the stored choice points, not on the applications of lemmas: a lemma
  that applies with no alternative left stores nothing. With \<open>step\<close> as the only lemma the
  engine goes from the goal \<open>P\<close> to the goal \<open>P\<close> with an empty choice stack, pass after
  pass, and the search returns within no bound.
\<close>

lemma stepping_iteration:
  assumes "stepping e"
  shows "\<exists>e'. run_iteration example_api e = Inr (Continue e') \<and> stepping e'"
proof -
  from assms have g: "goals (m_state e) = [Constant ''P'']"
    and d: "map_of (mctx (m_state e)) (Constant ''P'') = Some \<lparr>get_type = Constant ''P''\<rparr>"
    and c: "m_choices e = []" and l: "m_lemmas e = [(''P'', step)]" and m: "m_max_depth_bc e \<noteq> 0"
    by (simp_all add: stepping_def)
  from m have cap: "\<not> unat (m_max_depth_bc e) \<le> length (m_choices e)"
    by (simp add: c unat_eq_zero)
  let ?s' = "\<lparr>goals = [Constant ''P''],
              mctx = (Constant ''P'', \<lparr>get_type = Constant ''P''\<rparr>) # mctx (m_state e)\<rparr>"
  let ?e' = "e\<lparr>m_ctx_bc := mctx (m_state e), m_choices := [], m_state := ?s'\<rparr>"
  have t: "try_lemmas example_api e [step] = (True, ?e')"
    by (simp add: try_lemmas_def example_api_def example_apply_def step_def g d c)
  have "run_iteration example_api e = Inr (Continue ?e')"
    unfolding run_iteration_def using g cap
    by (simp add: get_main_goal_decl_def d l t [unfolded example_api_def] example_api_def Let_def)
  moreover have "stepping ?e'"
    using l m by (simp add: stepping_def)
  ultimately show ?thesis by blast
qed

lemma stepping_never_returns: "stepping e \<Longrightarrow> run n example_api e = None"
proof (induction n arbitrary: e)
  case 0
  show ?case by simp
next
  case (Suc n)
  from stepping_iteration [OF Suc.prems] obtain e' where
    "run_iteration example_api e = Inr (Continue e')" and "stepping e'" by blast
  with Suc.IH [of e'] show ?case by simp
qed

lemma step_alone_never_returns:
  "back_chaining n example_api md_all False 2 leaf_fail [step] goal_P = None"
proof -
  let ?e = "mk_back_chaining_fn example_api goal_P md_all False 2 leaf_fail [step]"
  have "stepping (?e\<lparr>m_state := set_goals (m_initial_state ?e) [Constant ''P'']\<rparr>)"
    by (simp add: stepping_def mk_back_chaining_fn_def example_api_def goal_P_def set_goals_def step_def)
  from stepping_never_returns [OF this, of n] show ?thesis
    by (simp add: back_chaining_def back_chaining_fn_call_def get_main_goal_decl_def goal_P_def
        mk_back_chaining_fn_def Let_def)
qed

section \<open>\<open>\<beta>\<close>-reduction and substitution\<close>

text \<open>
  Claim C1. In the empty context \<open>App [Lambda x (Type 0) (Var 0), Constant c]\<close> normalizes
  to \<open>Constant c\<close>. The equation with the substitution does not hold for every argument:
  under the hypothesis \<open>f\<close>, the redex of \<open>\<lambda>x y. x\<close> and \<open>f (Type 0)\<close> normalizes to
  \<open>\<lambda>y. y (Type 0)\<close>, the argument's \<open>Var 0\<close> captured by the binder \<open>y\<close>, whereas the
  substitution is \<open>\<lambda>y. f (Type 0)\<close> and normalizes to itself. The value of the argument is
  an \<open>Expr\<close>, which \<open>reify\<close> returns as it is, at whatever binder count.
\<close>

theorem beta_capture:
  "normalize_op 6 example_config imp_init (App [Lambda ''x'' (Type 0) (Var 0), Constant ''c'']) [] =
     Some (Inr (Constant ''c''), imp_init)
   \<and> substitute beta_body 0 beta_arg = Lambda ''y'' (Type 1) (App [Var 1, Type 0])
   \<and> normalize_op 6 example_config imp_init (App [Lambda ''x'' (Type 1) beta_body, beta_arg]) ctx_f =
     Some (Inr (Lambda ''y'' (Type 1) (App [Var 0, Type 0])), imp_init\<lparr>m_ctx := ctx_f\<rparr>)
   \<and> normalize_op 6 example_config imp_init (substitute beta_body 0 beta_arg) ctx_f =
     Some (Inr (Lambda ''y'' (Type 1) (App [Var 1, Type 0])), imp_init\<lparr>m_ctx := ctx_f\<rparr>)"
  by (intro conjI; code_simp)

section \<open>Normalizing twice\<close>

text \<open>
  Claim C9. Where the context defines \<open>g\<close> as the identity function, \<open>g (Type 0)\<close>
  normalizes to \<open>(\<lambda>x. x) (Type 0)\<close>: \<open>lookup\<close> hands the body back reified, an \<open>Expr\<close> and
  no closure, and the \<open>App\<close> case reduces closures only. Normalizing that result again
  in the same context gives \<open>Type 0\<close>.
\<close>

theorem normalize_not_idempotent:
  "normalize_op 8 example_config imp_init (App [Var 0, Type 0]) ctx_g =
     Some (Inr (App [Lambda ''x'' (Type 1) (Var 0), Type 0]), imp_init\<lparr>m_ctx := ctx_g\<rparr>)
   \<and> normalize_op 8 example_config (imp_init\<lparr>m_ctx := ctx_g\<rparr>)
         (App [Lambda ''x'' (Type 1) (Var 0), Type 0]) ctx_g =
     Some (Inr (Type 0), imp_init\<lparr>m_ctx := ctx_g\<rparr>)"
  by (intro conjI; code_simp)

section \<open>The cache across a \<^verbatim>\<open>save_context\<close> region\<close>

text \<open>
  What holds of the claim: \<^verbatim>\<open>set_ctx\<close> empties the cache when it changes the context,
  entering a \<^verbatim>\<open>save_context\<close> region empties it, and every call of \<open>normalize\<close> and of
  \<open>lookup\<close> leaves the context (and the depth) it was entered with, whether it returns or
  throws.
\<close>

lemma set_ctx_flushes:
  "\<not> is_eqp P ctx (m_ctx st) \<Longrightarrow> m_ctx (set_ctx P st ctx) = ctx \<and> m_cache (set_ctx P st ctx) = []"
  "is_eqp P ctx (m_ctx st) \<Longrightarrow> set_ctx P st ctx = st"
  "m_cache (save_context_enter st) = []"
  by (simp_all add: set_ctx_def save_context_enter_def)

lemma lands_ret [simp]: "lands c d (ret x st) \<longleftrightarrow> m_ctx st = c \<and> m_depth st = d"
  by (simp add: lands_def ret_def)

lemma lands_throw [simp]: "lands c d (throw e st) \<longleftrightarrow> m_ctx st = c \<and> m_depth st = d"
  by (simp add: lands_def throw_def)

lemma lands_None [simp]: "lands c d None"
  by (simp add: lands_def)






lemma lands_arg [simp]: "lands c d (arg as i st) \<longleftrightarrow> m_ctx st = c \<and> m_depth st = d"
  by (simp add: arg_def)





text \<open>
  Claim C4. In the context \<open>a, b, x := a\<close>, \<open>lookup\<close> of \<open>x\<close> normalizes the body \<open>Var 1\<close> in
  the prefix \<open>a, b\<close>, where it is \<open>a\<close>, and records \<open>BoundedVar 0\<close> for the shared node. On
  return the context is the whole context again and the cache still holds that entry.
  There \<open>Var 1\<close> is \<open>b\<close>, with the value \<open>BoundedVar 1\<close> from an empty cache, but with the
  cache left behind its value is \<open>BoundedVar 0\<close>. So \<open>Eq (Var 0) (Var 1)\<close> normalizes to
  \<open>Eq (Var 1) (Var 2)\<close> when the node is shared, and to true when it is not.
\<close>

theorem save_context_leaves_cache:
  "lookup 6 shared_config (imp_init\<lparr>m_ctx := ctx_let\<rparr>) [] 0 3 =
     Some (Inr (Expr (Var 1)), \<lparr>m_ctx = ctx_let, m_cache = [(Var 1, BoundedVar 0)], m_depth = 0\<rparr>)
   \<and> normalize 3 shared_config (imp_init\<lparr>m_ctx := ctx_let\<rparr>) (Var 1) [] 3 =
     Some (Inr (BoundedVar 1), \<lparr>m_ctx = ctx_let, m_cache = [(Var 1, BoundedVar 1)], m_depth = 0\<rparr>)
   \<and> normalize 3 shared_config \<lparr>m_ctx = ctx_let, m_cache = [(Var 1, BoundedVar 0)], m_depth = 0\<rparr> (Var 1) [] 3 =
     Some (Inr (BoundedVar 0), \<lparr>m_ctx = ctx_let, m_cache = [(Var 1, BoundedVar 0)], m_depth = 0\<rparr>)
   \<and> normalize_op 8 shared_config imp_init (Eq (Var 0) (Var 1)) ctx_let =
     Some (Inr (Eq (Var 1) (Var 2)), \<lparr>m_ctx = ctx_let, m_cache = [(Var 1, BoundedVar 0)], m_depth = 0\<rparr>)
   \<and> normalize_op 8 example_config imp_init (Eq (Var 0) (Var 1)) ctx_let =
     Some (Inr (mk_bool_value True), \<lparr>m_ctx = ctx_let, m_cache = [], m_depth = 0\<rparr>)"
  by (intro conjI; code_simp)

section \<open>A term on which \<^verbatim>\<open>normalize\<close> does not return\<close>

text \<open>
  With the depth cap at its default, the largest \<^verbatim>\<open>unsigned\<close>, the cap never fires, and
  the self-application \<^const>\<open>omega\<close> is unfolded for ever: whatever the fuel, the
  model of \<^verbatim>\<open>operator()\<close> runs out of it. This is why the results about
  \<^const>\<open>normalize\<close> above state separately that a result is returned.
\<close>

lemma example_config_simps:
  "m_interrupted example_config = False" "m_max_depth example_config = - 1"
  "is_shared example_config a = False"
  by (simp_all add: example_config_def)

lemma word_no_cap: "\<not> (- 1 :: 32 word) < d"
  by (simp add: not_less)

lemma normalize_top_var:
  "normalize n example_config st (Var 0) (v # s) k = None
   \<or> normalize n example_config st (Var 0) (v # s) k = Some (Inr v, st)"
proof (cases n)
  case 0
  then show ?thesis by simp
next
  case (Suc m)
  then show ?thesis
    by (cases m) (simp_all add: Let_def flet_depth_def cache_result_def ret_def bind_res_def
        example_config_simps word_no_cap)
qed

lemma normalize_Lambda:
  "normalize n example_config st (Lambda x t b) s k = None
   \<or> normalize n example_config st (Lambda x t b) s k = Some (Inr (Closure (Lambda x t b) s), st)"
  by (cases n) (simp_all add: Let_def flet_depth_def cache_result_def ret_def bind_res_def
      example_config_simps word_no_cap)

lemma normalize_App_unfold:
  "normalize (Suc n) example_config st (App as) s k =
     flet_depth (m_depth st)
       (bind_res (arg as 0 (st\<lparr>m_depth := m_depth st + 1\<rparr>)) (\<lambda>a0 st2.
        bind_res (normalize n example_config st2 a0 s k) (\<lambda>f st3.
          normalize_app_loop n example_config st3 as s k f (Suc 0))))"
  by (simp add: Let_def cache_result_def ret_def bind_res_def example_config_simps word_no_cap
      split: option.splits sum.splits prod.splits)

lemma app_loop_closure_unfold:
  "normalize_app_loop (Suc j) P st as s k (Closure (Lambda x t b) fs) i =
     bind_res
       (mk_scope (m_cache st)
         (bind_res (arg as i st) (\<lambda>ai st1.
          bind_res (normalize j P st1 ai s k) (\<lambda>v st2.
            normalize j P st2 b (extend_stack fs v) k))))
       (\<lambda>f' st3.
          if i = length as - 1 then ret f' st3
          else normalize_app_loop j P st3 as s k f' (i + 1))"
  by simp

lemma bind_res_None: "bind_res None f = None"
  by (simp add: bind_res_def)

lemma beta_step_never_returns:
  assumes arg: "normalize j example_config st a s k = None
      \<or> normalize j example_config st a s k = Some (Inr v, st)"
    and body: "\<And>st2. normalize j example_config st2 b (v # fs) k = None"
  shows "normalize_app_loop (Suc j) example_config st [h, a] s k (Closure (Lambda x t b) fs) (Suc 0) = None"
proof -
  from arg have "bind_res (normalize j example_config st a s k)
      (\<lambda>v st2. normalize j example_config st2 b (extend_stack fs v) k) = None"
    by (auto simp: bind_res_def extend_stack_def body)
  then show ?thesis
    unfolding app_loop_closure_unfold by (simp add: arg_def ret_def mk_scope_def bind_res_None)
qed

lemma self_app_never_returns:
  "normalize n example_config st self_app (Closure dup_fn s0 # s1) k = None"
proof (induction n arbitrary: st s0 s1 k rule: less_induct)
  case (less n)
  let ?s = "Closure dup_fn s0 # s1"
  show ?case
  proof (cases n)
    case 0
    then show ?thesis by simp
  next
    case (Suc m)
    have loop: "normalize_app_loop m example_config st' [Var 0, Var 0] ?s k (Closure dup_fn s0) (Suc 0) = None"
      for st'
    proof (cases m)
      case 0
      then show ?thesis by simp
    next
      case m: (Suc j)
      from less.IH [of j _ s0 s0 k] Suc m
      have "normalize j example_config st2 self_app (Closure dup_fn s0 # s0) k = None" for st2
        by simp
      from beta_step_never_returns [OF normalize_top_var this]
      show ?thesis unfolding m dup_fn_def .
    qed
    let ?st1 = "st\<lparr>m_depth := m_depth st + 1\<rparr>"
    from normalize_top_var [of m ?st1 "Closure dup_fn s0" s1 k]
    have "bind_res (normalize m example_config ?st1 (Var 0) ?s k)
            (\<lambda>f st3. normalize_app_loop m example_config st3 [Var 0, Var 0] ?s k f (Suc 0)) = None"
      by (auto simp: bind_res_def loop)
    then show ?thesis
      unfolding Suc self_app_def normalize_App_unfold
      by (simp add: arg_def ret_def flet_depth_def)
  qed
qed

lemma omega_never_returns: "normalize_op n example_config imp_init omega [] = None"
proof (cases n)
  case 0
  then show ?thesis by (simp add: normalize_op_def Let_def bind_res_def)
next
  case (Suc m)
  let ?st = "set_ctx example_config imp_init []"
  let ?k = "ctx_size (m_ctx ?st)"
  let ?st1 = "?st\<lparr>m_depth := m_depth ?st + 1\<rparr>"
  have loop: "normalize_app_loop m example_config st' [dup_fn, dup_fn] [] ?k (Closure dup_fn []) (Suc 0) = None"
    for st'
  proof (cases m)
    case 0
    then show ?thesis by simp
  next
    case m: (Suc j)
    have "normalize j example_config st' dup_fn [] ?k = None
      \<or> normalize j example_config st' dup_fn [] ?k = Some (Inr (Closure dup_fn []), st')"
      unfolding dup_fn_def by (rule normalize_Lambda)
    from beta_step_never_returns [OF this self_app_never_returns]
    show ?thesis unfolding m by (simp add: dup_fn_def)
  qed
  have "normalize m example_config ?st1 dup_fn [] ?k = None
      \<or> normalize m example_config ?st1 dup_fn [] ?k = Some (Inr (Closure dup_fn []), ?st1)"
    unfolding dup_fn_def by (rule normalize_Lambda)
  then have "bind_res (normalize m example_config ?st1 dup_fn [] ?k)
          (\<lambda>f st3. normalize_app_loop m example_config st3 [dup_fn, dup_fn] [] ?k f (Suc 0)) = None"
    by (auto simp: bind_res_def loop)
  then have "normalize n example_config ?st omega [] ?k = None"
    unfolding Suc omega_def normalize_App_unfold
    by (simp add: arg_def ret_def flet_depth_def)
  then show ?thesis
    by (simp add: normalize_op_def Let_def bind_res_def)
qed

section \<open>Unfolding of definitions\<close>


lemma wf_value_mono: "wf_value B v \<Longrightarrow> B \<subseteq> B' \<Longrightarrow> wf_value B' v"
  by (induction B v rule: wf_value.induct) auto

lemma shift_levels_id: "wf_value {} v \<Longrightarrow> shift_levels d v = v"
  by (induction d v rule: shift_levels.induct) (auto simp: map_idI)













lemma value_rel_closed: "wf_value {} x \<Longrightarrow> value_rel d B x x"
  by (simp add: value_rel_def shift_levels_id wf_value_mono [of "{}"])














lemma set_ctx_depth [simp]: "m_depth (set_ctx P st ctx) = m_depth st"
  by (simp add: set_ctx_def)










end
